theory Spec2Isabelle
  imports Complex_Main "HOL-Library.Word"
begin

chapter \<open>Definitions: the embedding of the compositing pipeline\<close>

section \<open>Helpers shared by the components\<close>

text \<open>
  Modelled from the spec: \<open>wf::clamp\<close> is declared in a header that is not part of the
  sources at hand; the spec speaks of values "clamped to [lo, hi]" and "bounded to" a
  limit. The model is the usual \<open>min (max value lo) hi\<close>.
\<close>

definition clamp :: "int \<Rightarrow> int \<Rightarrow> int \<Rightarrow> int" where
  "clamp v lo hi = min (max v lo) hi"

text \<open>
  The C++ conversion of a \<open>double\<close> to an integer type drops the fractional part
  (truncation toward zero). Doubles are idealised as reals; for the magnitudes that occur
  (milliseconds, nanosecond refresh intervals) every value involved is exactly
  representable.
\<close>

definition to_int64 :: "real \<Rightarrow> int" where
  "to_int64 v = (if 0 \<le> v then \<lfloor>v\<rfloor> else \<lceil>v\<rceil>)"

section \<open>Effect hook registry (\<open>effect_hook_manager_t\<close>)\<close>

text \<open>A hook is registered by address: \<open>effect_hook_t*\<close>.\<close>

type_synonym hook_ptr = nat

text \<open>
  Modelled from the spec: the enumeration \<open>output_effect_type_t\<close> lives in a header that is
  not part of the sources at hand. The spec names four stages in the order PRE, DAMAGE,
  OVERLAY, POST; \<open>OUTPUT_EFFECT_TOTAL\<close> is their number.
\<close>

definition OUTPUT_EFFECT_PRE :: nat where "OUTPUT_EFFECT_PRE = 0"
definition OUTPUT_EFFECT_DAMAGE :: nat where "OUTPUT_EFFECT_DAMAGE = 1"
definition OUTPUT_EFFECT_OVERLAY :: nat where "OUTPUT_EFFECT_OVERLAY = 2"
definition OUTPUT_EFFECT_POST :: nat where "OUTPUT_EFFECT_POST = 3"
definition OUTPUT_EFFECT_TOTAL :: nat where "OUTPUT_EFFECT_TOTAL = 4"

text \<open>
  Modelled from the spec: \<open>wf::safe_list_t\<close> is declared in a header that is not part of
  the sources at hand. Outside of a running iteration it is a sequence: \<open>push_back\<close>
  appends, \<open>remove_all\<close> erases every element equal to its argument and keeps the others
  in order, \<open>size\<close> counts the elements.
\<close>

type_synonym 'a safe_list_t = "'a list"

definition push_back :: "'a \<Rightarrow> 'a safe_list_t \<Rightarrow> 'a safe_list_t" where
  "push_back v l = l @ [v]"

fun remove_all :: "'a \<Rightarrow> 'a safe_list_t \<Rightarrow> 'a safe_list_t" where
  "remove_all v [] = []"
| "remove_all v (e # l) = (if e = v then remove_all v l else e # remove_all v l)"

definition size_sl :: "'a safe_list_t \<Rightarrow> nat" where
  "size_sl l = length l"

text \<open>
  \<open>effect_container_t effects[OUTPUT_EFFECT_TOTAL]\<close>: an array of lists indexed by the
  stage.
\<close>

record effect_hook_manager_t =
  effects :: "nat \<Rightarrow> hook_ptr safe_list_t"

definition add_effect :: "hook_ptr \<Rightarrow> nat \<Rightarrow> effect_hook_manager_t \<Rightarrow> effect_hook_manager_t" where
  "add_effect hook type m = m\<lparr>effects := (effects m)(type := push_back hook (effects m type))\<rparr>"

definition can_scanout :: "effect_hook_manager_t \<Rightarrow> bool" where
  "can_scanout m \<longleftrightarrow>
     size_sl (effects m OUTPUT_EFFECT_OVERLAY) = 0 \<and> size_sl (effects m OUTPUT_EFFECT_POST) = 0"

text \<open>The loop \<open>for (int i = 0; i < OUTPUT_EFFECT_TOTAL; i++)\<close> of \<open>rem_effect\<close>, from \<open>i\<close> on.\<close>

function rem_effect_from :: "nat \<Rightarrow> hook_ptr \<Rightarrow> effect_hook_manager_t \<Rightarrow> effect_hook_manager_t" where
  "rem_effect_from i hook m =
     (if i < OUTPUT_EFFECT_TOTAL
      then rem_effect_from (Suc i) hook
             (m\<lparr>effects := (effects m)(i := remove_all hook (effects m i))\<rparr>)
      else m)"
  by pat_completeness auto
termination
  by (relation "measure (\<lambda>(i, hook, m). OUTPUT_EFFECT_TOTAL - i)") auto

declare rem_effect_from.simps [simp del]

definition rem_effect :: "hook_ptr \<Rightarrow> effect_hook_manager_t \<Rightarrow> effect_hook_manager_t" where
  "rem_effect hook m = rem_effect_from 0 hook m"

section \<open>Postprocessing chain (\<open>postprocessing_manager_t\<close>)\<close>

text \<open>Only the chain of stages matters for the scan-out query; a stage is a \<open>post_hook_t*\<close>.\<close>

record postprocessing_manager_t =
  post_effects :: "hook_ptr safe_list_t"

definition add_post :: "hook_ptr \<Rightarrow> postprocessing_manager_t \<Rightarrow> postprocessing_manager_t" where
  "add_post hook pm = pm\<lparr>post_effects := push_back hook (post_effects pm)\<rparr>"

definition rem_post :: "hook_ptr \<Rightarrow> postprocessing_manager_t \<Rightarrow> postprocessing_manager_t" where
  "rem_post hook pm = pm\<lparr>post_effects := remove_all hook (post_effects pm)\<rparr>"

definition can_scanout_post :: "postprocessing_manager_t \<Rightarrow> bool" where
  "can_scanout_post pm \<longleftrightarrow> size_sl (post_effects pm) = 0"

section \<open>The direct scan-out shortcut (\<open>render_manager::impl::do_direct_scanout\<close>)\<close>

datatype direct_scanout = SKIP | OCCLUSION | SUCCESS

text \<open>
  A render instance is represented by what its \<open>try_scanout\<close> answers for the output; the
  answer comes from the scene and is an input here.
\<close>

fun try_scanout_from_list :: "direct_scanout list \<Rightarrow> direct_scanout" where
  "try_scanout_from_list [] = SKIP"
| "try_scanout_from_list (res # instances) =
     (if res \<noteq> SKIP then res else try_scanout_from_list instances)"

text \<open>
  The part of \<open>impl\<close> that \<open>do_direct_scanout\<close> reads. \<open>direct_scanout_allowed\<close> is the answer
  of \<open>wlr_output_is_direct_scanout_allowed\<close>, \<open>icc_color_transform\<close> is a pointer
  (\<open>None\<close> for \<open>nullptr\<close>), \<open>env_allow_scanout\<close> was read from the environment at
  construction.
\<close>

record impl =
  output_inhibit_counter :: int
  impl_effects :: effect_hook_manager_t
  postprocessing :: postprocessing_manager_t
  direct_scanout_allowed :: bool
  icc_color_transform :: "nat option"
  env_allow_scanout :: bool
  render_instances :: "direct_scanout list"

text \<open>
  \<open>do_direct_scanout_attempt\<close> is the body of \<open>do_direct_scanout\<close> with the attempt made
  visible: \<open>None\<close> is the early \<open>return false\<close>, \<open>Some r\<close> says that
  \<open>try_scanout_from_list\<close> was called and answered \<open>r\<close>.
\<close>

definition do_direct_scanout_attempt :: "impl \<Rightarrow> direct_scanout option" where
  "do_direct_scanout_attempt i =
     (let can = (output_inhibit_counter i = 0 \<and> can_scanout (impl_effects i) \<and>
                 can_scanout_post (postprocessing i) \<and> direct_scanout_allowed i \<and>
                 icc_color_transform i = None)
      in if \<not> can \<or> \<not> env_allow_scanout i then None
         else Some (try_scanout_from_list (render_instances i)))"

definition do_direct_scanout :: "impl \<Rightarrow> bool" where
  "do_direct_scanout i \<longleftrightarrow> do_direct_scanout_attempt i = Some SUCCESS"

section \<open>Frame pacer (\<open>repaint_delay_manager_t\<close>)\<close>

text \<open>
  Times are milliseconds, \<open>refresh_nsec\<close> nanoseconds. The two options
  \<open>core/max_render_time\<close> and \<open>workarounds/dynamic_repaint_delay\<close> are read at every use;
  they are fields of the state here. The C++ integers are modelled as unbounded integers:
  signed overflow is undefined in C++, and no execution within the lifetime of a machine
  comes near the bounds (timestamps in milliseconds, a counter that moves by one per
  frame).
\<close>

record repaint_delay_manager_t =
  delay :: int
  increase_window :: int
  last_increase :: int
  expand_inc_window_on_miss :: int
  consecutive_decrease :: int
  last_pageflip :: int
  refresh_nsec :: int
  max_render_time :: int
  dynamic_delay :: bool

definition MIN_INCREASE_WINDOW :: int where "MIN_INCREASE_WINDOW = 200"
definition MAX_INCREASE_WINDOW :: int where "MAX_INCREASE_WINDOW = 30000"

text \<open>The member initialisers; \<open>refresh_nsec\<close> and the options come from outside.\<close>

definition initial_pacer :: "int \<Rightarrow> int \<Rightarrow> bool \<Rightarrow> repaint_delay_manager_t" where
  "initial_pacer refresh mrt dyn =
     \<lparr>delay = 0, increase_window = MIN_INCREASE_WINDOW, last_increase = 0,
      expand_inc_window_on_miss = 0, consecutive_decrease = 1, last_pageflip = -1,
      refresh_nsec = refresh, max_render_time = mrt, dynamic_delay = dyn\<rparr>"

definition skip_frame :: "repaint_delay_manager_t \<Rightarrow> repaint_delay_manager_t" where
  "skip_frame p = p\<lparr>last_pageflip := -1\<rparr>"

text \<open>\<open>this->refresh_nsec / 1e6\<close> converted to an integer: the refresh interval in milliseconds.\<close>

definition refresh_ms :: "repaint_delay_manager_t \<Rightarrow> int" where
  "refresh_ms p = to_int64 (real_of_int (refresh_nsec p) / 1000000)"

definition update_delay :: "int \<Rightarrow> repaint_delay_manager_t \<Rightarrow> repaint_delay_manager_t" where
  "update_delay delta p =
     (let config_delay = max 0 (refresh_ms p - max_render_time p);
          mn0 = 0;
          mx0 = config_delay;
          (mn, mx) = (if max_render_time p = -1 then (mn0, 0)
                      else if \<not> dynamic_delay p then (config_delay, config_delay)
                      else (mn0, mx0))
      in p\<lparr>delay := clamp (delay p + delta) mn mx\<rparr>)"

definition reset_increase_timer :: "int \<Rightarrow> repaint_delay_manager_t \<Rightarrow> repaint_delay_manager_t" where
  "reset_increase_timer t p = p\<lparr>last_increase := t\<rparr>"

text \<open>
  \<open>start_frame\<close> reads the clock several times; \<open>get_current_time k\<close> is what the \<open>k\<close>-th
  call of \<open>get_current_time()\<close> within this invocation returns (counted from 0 along the
  path taken). The test on the grace counter is \<open>expand_inc_window_on_miss >= 0\<close>, as in the
  body of the function (the comment at the declaration of the counter reads
  \<open>> 0 => Increase increase_window\<close>).
\<close>

definition start_frame :: "(nat \<Rightarrow> int) \<Rightarrow> repaint_delay_manager_t \<Rightarrow> repaint_delay_manager_t" where
  "start_frame get_current_time p =
     (if last_pageflip p = -1 then p\<lparr>last_pageflip := get_current_time 0\<rparr>
      else
        let refresh = refresh_ms p;
            on_time_thresh = to_int64 (real_of_int refresh * 1.5);
            last_frame_len = get_current_time 0 - last_pageflip p
        in if last_frame_len \<le> on_time_thresh then
             (if get_current_time 1 - last_increase p \<ge> increase_window p then
                let p1 = p\<lparr>increase_window :=
                            clamp (to_int64 (real_of_int (increase_window p) * 0.75))
                              MIN_INCREASE_WINDOW MAX_INCREASE_WINDOW\<rparr>;
                    p2 = update_delay 1 p1;
                    p3 = reset_increase_timer (get_current_time 2) p2;
                    p4 = p3\<lparr>expand_inc_window_on_miss := 20\<rparr>;
                    p5 = p4\<lparr>consecutive_decrease := 1\<rparr>
                in p5\<lparr>last_pageflip := get_current_time 3\<rparr>
              else
                let p1 = p\<lparr>expand_inc_window_on_miss := expand_inc_window_on_miss p - 1\<rparr>;
                    p2 = p1\<lparr>consecutive_decrease := 1\<rparr>
                in p2\<lparr>last_pageflip := get_current_time 2\<rparr>)
           else
             let p1 = update_delay (- consecutive_decrease p) p;
                 p2 = p1\<lparr>consecutive_decrease := clamp (consecutive_decrease p1 * 2) 1 32\<rparr>;
                 p3 = (if expand_inc_window_on_miss p2 \<ge> 0
                       then p2\<lparr>increase_window :=
                                 clamp (increase_window p2 * 2)
                                   MIN_INCREASE_WINDOW MAX_INCREASE_WINDOW\<rparr>
                       else p2);
                 p4 = reset_increase_timer (get_current_time 1) p3
             in p4\<lparr>last_pageflip := get_current_time 2\<rparr>)"

definition get_delay :: "repaint_delay_manager_t \<Rightarrow> int" where
  "get_delay p = delay p"

text \<open>
  The bounds between which \<open>update_delay\<close> clamps, and the ranges in which the member
  initialisers and every later assignment keep \<open>increase_window\<close> and
  \<open>consecutive_decrease\<close>.
\<close>

definition delay_lo :: "repaint_delay_manager_t \<Rightarrow> int" where
  "delay_lo p = (if max_render_time p \<noteq> -1 \<and> \<not> dynamic_delay p
                 then max 0 (refresh_ms p - max_render_time p) else 0)"

definition delay_hi :: "repaint_delay_manager_t \<Rightarrow> int" where
  "delay_hi p = (if max_render_time p = -1 then 0 else max 0 (refresh_ms p - max_render_time p))"

definition pacer_inv :: "repaint_delay_manager_t \<Rightarrow> bool" where
  "pacer_inv p \<longleftrightarrow>
     MIN_INCREASE_WINDOW \<le> increase_window p \<and> increase_window p \<le> MAX_INCREASE_WINDOW \<and>
     1 \<le> consecutive_decrease p \<and> consecutive_decrease p \<le> 32"

text \<open>
  A pacer in the middle of a run on a 60 Hz output (\<open>refresh_nsec = 16666666\<close>, that is 16 ms):
  last page flip at 1000 ms, last increase at 800 ms.
\<close>

definition pacer_at :: "int \<Rightarrow> int \<Rightarrow> int \<Rightarrow> repaint_delay_manager_t" where
  "pacer_at d backoff mrt =
     \<lparr>delay = d, increase_window = 200, last_increase = 800,
      expand_inc_window_on_miss = 3, consecutive_decrease = backoff, last_pageflip = 1000,
      refresh_nsec = 16666666, max_render_time = mrt, dynamic_delay = True\<rparr>"

text \<open>
  The same moment on an output with the refresh interval \<open>refresh\<close> (in nanoseconds) and
  the grace counter at \<open>grace\<close>; the render-time budget is 1 ms and the delay 2 ms.
\<close>

definition pacer_on :: "int \<Rightarrow> int \<Rightarrow> repaint_delay_manager_t" where
  "pacer_on refresh grace =
     \<lparr>delay = 2, increase_window = 200, last_increase = 800,
      expand_inc_window_on_miss = grace, consecutive_decrease = 1, last_pageflip = 1000,
      refresh_nsec = refresh, max_render_time = 1, dynamic_delay = True\<rparr>"

section \<open>Depth buffer cache (\<open>depth_buffer_manager_t\<close>)\<close>

text \<open>
  The GL objects the cache touches. Texture names are \<open>GLuint\<close>; \<open>textures\<close> maps every live
  texture name to the size of its storage, \<open>depth_attachment\<close> maps a framebuffer to the
  texture attached as its depth buffer. \<open>glGenTextures\<close> hands out names from a counter.
  \<open>gles\<close> says whether the renderer is GLES (\<open>run_in_context_if_gles\<close> runs its argument
  only then).
\<close>

type_synonym GLuint = "32 word"

record gl_context =
  textures :: "GLuint \<rightharpoonup> int \<times> int"
  next_name :: GLuint
  depth_attachment :: "int \<rightharpoonup> GLuint"
  gles :: bool

definition glGenTextures :: "gl_context \<Rightarrow> GLuint \<times> gl_context" where
  "glGenTextures gl = (next_name gl, gl\<lparr>next_name := next_name gl + 1\<rparr>)"

definition glTexImage2D :: "GLuint \<Rightarrow> int \<Rightarrow> int \<Rightarrow> gl_context \<Rightarrow> gl_context" where
  "glTexImage2D name w h gl = gl\<lparr>textures := (textures gl)(name \<mapsto> (w, h))\<rparr>"

definition glFramebufferTexture2D :: "int \<Rightarrow> GLuint \<Rightarrow> gl_context \<Rightarrow> gl_context" where
  "glFramebufferTexture2D fb name gl = gl\<lparr>depth_attachment := (depth_attachment gl)(fb \<mapsto> name)\<rparr>"

definition glDeleteTextures :: "GLuint \<Rightarrow> gl_context \<Rightarrow> gl_context" where
  "glDeleteTextures name gl = gl\<lparr>textures := (textures gl)(name := None)\<rparr>"

text \<open>\<open>struct depth_buffer_t\<close> with its default member initialisers.\<close>

record depth_buffer_t =
  tex :: GLuint
  attached_to :: int
  width :: int
  height :: int
  last_used :: int

definition default_depth_buffer :: depth_buffer_t where
  "default_depth_buffer = \<lparr>tex = -1, attached_to = -1, width = 0, height = 0, last_used = 0\<rparr>"

record depth_buffer_manager_t =
  required_counter :: int
  buffers :: "depth_buffer_t list"

definition MAX_BUFFERS :: nat where "MAX_BUFFERS = 3"

definition initial_depth_manager :: depth_buffer_manager_t where
  "initial_depth_manager = \<lparr>required_counter = 0, buffers = []\<rparr>"

definition initial_gl :: gl_context where
  "initial_gl = \<lparr>textures = Map.empty, next_name = 1, depth_attachment = Map.empty, gles = True\<rparr>"

text \<open>\<open>free_buffer\<close> deletes the texture of an entry; the entry itself is not written.\<close>

definition free_buffer :: "depth_buffer_t \<Rightarrow> gl_context \<Rightarrow> gl_context" where
  "free_buffer buffer gl = (if tex buffer \<noteq> -1 then glDeleteTextures (tex buffer) gl else gl)"

fun free_each :: "depth_buffer_t list \<Rightarrow> gl_context \<Rightarrow> gl_context" where
  "free_each [] gl = gl"
| "free_each (b # bs) gl = free_each bs (free_buffer b gl)"

definition free_all_buffers ::
  "depth_buffer_manager_t \<times> gl_context \<Rightarrow> depth_buffer_manager_t \<times> gl_context" where
  "free_all_buffers s =
     (case s of (m, gl) \<Rightarrow> if gles gl then (m, free_each (buffers m) gl) else (m, gl))"

text \<open>
  \<open>attach_buffer\<close> works on a reference into the vector: the entry is given by its index.
  \<open>now\<close> is what \<open>get_current_time()\<close> returns.
\<close>

definition attach_buffer ::
  "nat \<Rightarrow> int \<Rightarrow> int \<Rightarrow> int \<Rightarrow> int \<Rightarrow> depth_buffer_manager_t \<times> gl_context \<Rightarrow>
   depth_buffer_manager_t \<times> gl_context" where
  "attach_buffer idx fb w h now s =
     (case s of (m, gl) \<Rightarrow>
        let buffer = buffers m ! idx in
        if attached_to buffer = fb \<and> width buffer = w \<and> height buffer = h then (m, gl)
        else
          let gl1 = free_buffer buffer gl;
              (name, gl2) = glGenTextures gl1;
              gl3 = glTexImage2D name w h gl2;
              gl4 = glFramebufferTexture2D fb name gl3;
              buffer' = buffer\<lparr>tex := name, width := w, height := h,
                                attached_to := fb, last_used := now\<rparr>
          in (m\<lparr>buffers := (buffers m)[idx := buffer']\<rparr>, gl4))"

text \<open>The first loop of \<open>find_buffer\<close>: the index of the first entry attached to \<open>fb\<close>.\<close>

fun find_attached :: "int \<Rightarrow> depth_buffer_t list \<Rightarrow> nat option" where
  "find_attached fb [] = None"
| "find_attached fb (b # bs) =
     (if attached_to b = fb then Some 0 else map_option Suc (find_attached fb bs))"

text \<open>
  The eviction loop: \<open>oldest\<close> starts at the front and moves to an entry only when that
  entry's \<open>last_used\<close> is strictly smaller. \<open>i\<close> is the index of the head of the rest.
\<close>

fun evict_scan :: "depth_buffer_t list \<Rightarrow> nat \<Rightarrow> nat \<Rightarrow> depth_buffer_t list \<Rightarrow> nat" where
  "evict_scan all oldest i [] = oldest"
| "evict_scan all oldest i (b # rest) =
     evict_scan all (if last_used b < last_used (all ! oldest) then i else oldest) (Suc i) rest"

text \<open>\<open>find_buffer\<close> may grow the vector; it returns the vector and the index it refers to.\<close>

definition find_buffer :: "int \<Rightarrow> depth_buffer_t list \<Rightarrow> depth_buffer_t list \<times> nat" where
  "find_buffer fb bufs =
     (case find_attached fb bufs of
        Some i \<Rightarrow> (bufs, i)
      | None \<Rightarrow>
          if length bufs < MAX_BUFFERS then (bufs @ [default_depth_buffer], length bufs)
          else (bufs, evict_scan bufs 0 0 bufs))"

definition ensure_depth_buffer ::
  "int \<Rightarrow> int \<Rightarrow> int \<Rightarrow> int \<Rightarrow> depth_buffer_manager_t \<times> gl_context \<Rightarrow>
   depth_buffer_manager_t \<times> gl_context" where
  "ensure_depth_buffer fb w h now s =
     (case s of (m, gl) \<Rightarrow>
        if fb = 0 \<or> required_counter m \<le> 0 then (m, gl)
        else
          let (bufs, idx) = find_buffer fb (buffers m)
          in attach_buffer idx fb w h now (m\<lparr>buffers := bufs\<rparr>, gl))"

definition set_required ::
  "bool \<Rightarrow> depth_buffer_manager_t \<times> gl_context \<Rightarrow> depth_buffer_manager_t \<times> gl_context" where
  "set_required require s =
     (case s of (m, gl) \<Rightarrow>
        let m' = m\<lparr>required_counter := required_counter m + (if require then 1 else -1)\<rparr>
        in if required_counter m' \<le> 0 then free_all_buffers (m', gl) else (m', gl))"

text \<open>A history of calls on the cache, with the clock reading of each \<open>ensure_depth_buffer\<close>.\<close>

datatype depth_call = Ensure int int int int | Set_required bool

fun depth_step ::
  "depth_call \<Rightarrow> depth_buffer_manager_t \<times> gl_context \<Rightarrow> depth_buffer_manager_t \<times> gl_context" where
  "depth_step (Ensure fb w h now) s = ensure_depth_buffer fb w h now s"
| "depth_step (Set_required require) s = set_required require s"

fun depth_run ::
  "depth_call list \<Rightarrow> depth_buffer_manager_t \<times> gl_context \<Rightarrow> depth_buffer_manager_t \<times> gl_context" where
  "depth_run [] s = s"
| "depth_run (c # cs) s = depth_run cs (depth_step c s)"

text \<open>
  The entry and the GL state that a completed \<open>attach_buffer\<close> leaves behind, and a full
  cache to exercise the eviction.
\<close>

definition attached ::
  "int \<Rightarrow> int \<Rightarrow> int \<Rightarrow> int \<Rightarrow> gl_context \<Rightarrow> depth_buffer_t" where
  "attached fb w h now gl =
     \<lparr>tex = next_name gl, attached_to = fb, width = w, height = h, last_used = now\<rparr>"

definition gl_attached :: "int \<Rightarrow> int \<Rightarrow> int \<Rightarrow> gl_context \<Rightarrow> gl_context" where
  "gl_attached fb w h gl =
     gl\<lparr>next_name := next_name gl + 1,
        textures := (textures gl)(next_name gl \<mapsto> (w, h)),
        depth_attachment := (depth_attachment gl)(fb \<mapsto> next_name gl)\<rparr>"

definition full_cache :: depth_buffer_manager_t where
  "full_cache = \<lparr>required_counter = 1, buffers =
     [\<lparr>tex = 4, attached_to = 7, width = 800, height = 600, last_used = 300\<rparr>,
      \<lparr>tex = 5, attached_to = 8, width = 800, height = 600, last_used = 100\<rparr>,
      \<lparr>tex = 6, attached_to = 9, width = 800, height = 600, last_used = 200\<rparr>]\<rparr>"

section \<open>Scene transform stack (\<open>transform_manager_node_t\<close>)\<close>

text \<open>
  Modelled from the spec: the scene node classes are declared in headers that are not part
  of the sources at hand. Nodes are identified by their address; of a node only its list of
  children matters here (\<open>get_children\<close>, \<open>set_children_list\<close>), and \<open>damage_node\<close> and
  \<open>update\<close> are recorded as events in the order they are issued.
\<close>

type_synonym node_ptr = nat

datatype scene_event = Damage_node node_ptr | Update_children_list node_ptr

record scene =
  children :: "node_ptr \<Rightarrow> node_ptr list"
  events :: "scene_event list"

definition get_children :: "node_ptr \<Rightarrow> scene \<Rightarrow> node_ptr list" where
  "get_children n sc = children sc n"

definition set_children_list :: "node_ptr \<Rightarrow> node_ptr list \<Rightarrow> scene \<Rightarrow> scene" where
  "set_children_list n cs sc = sc\<lparr>children := (children sc)(n := cs)\<rparr>"

definition damage_node :: "node_ptr \<Rightarrow> scene \<Rightarrow> scene" where
  "damage_node n sc = sc\<lparr>events := events sc @ [Damage_node n]\<rparr>"

definition update_children_list :: "node_ptr \<Rightarrow> scene \<Rightarrow> scene" where
  "update_children_list n sc = sc\<lparr>events := events sc @ [Update_children_list n]\<rparr>"

record added_transformer_t =
  node :: node_ptr
  z_order :: int
  name :: string

text \<open>\<open>self\<close> is \<open>this\<close>, the address of the manager node itself.\<close>

record transform_manager_node_t =
  self :: node_ptr
  transformers :: "added_transformer_t list"

text \<open>
  The loop \<open>while (pos < transformers.size() && transformers[pos].z_order < z_order) ++pos\<close>,
  from \<open>pos\<close> on.
\<close>

function insert_pos_from :: "nat \<Rightarrow> added_transformer_t list \<Rightarrow> int \<Rightarrow> nat" where
  "insert_pos_from pos ts z =
     (if pos < length ts \<and> z_order (ts ! pos) < z then insert_pos_from (Suc pos) ts z else pos)"
  by pat_completeness auto
termination
  by (relation "measure (\<lambda>(pos, ts, z). length ts - pos)") auto

declare insert_pos_from.simps [simp del]

text \<open>\<open>transformers.insert(transformers.begin() + pos, t)\<close> for \<open>pos \<le> size\<close>.\<close>

definition vector_insert :: "nat \<Rightarrow> 'a \<Rightarrow> 'a list \<Rightarrow> 'a list" where
  "vector_insert pos t ts = take pos ts @ t # drop pos ts"

definition add_transformer ::
  "node_ptr \<Rightarrow> int \<Rightarrow> string \<Rightarrow> transform_manager_node_t \<times> scene \<Rightarrow>
   transform_manager_node_t \<times> scene" where
  "add_transformer transformer z nm s =
     (case s of (tm, sc) \<Rightarrow>
        let sc1 = damage_node (self tm) sc;
            pos = insert_pos_from 0 (transformers tm) z;
            parent = (if pos = length (transformers tm) then self tm
                      else node (transformers tm ! pos));
            tm' = tm\<lparr>transformers :=
                     vector_insert pos \<lparr>node = transformer, z_order = z, name = nm\<rparr>
                       (transformers tm)\<rparr>;
            cs = get_children parent sc1;
            sc2 = set_children_list parent [transformer] sc1;
            sc3 = set_children_list transformer cs sc2;
            sc4 = update_children_list transformer sc3;
            sc5 = damage_node (self tm') sc4
        in (tm', sc5))"

text \<open>A sequence of insertions, each given as (node, z-order, name).\<close>

fun add_transformers ::
  "(node_ptr \<times> int \<times> string) list \<Rightarrow> transform_manager_node_t \<times> scene \<Rightarrow>
   transform_manager_node_t \<times> scene" where
  "add_transformers [] s = s"
| "add_transformers ((n, z, nm) # rest) s = add_transformers rest (add_transformer n z nm s)"

section \<open>2D transformer (\<open>view_2d_transformer_t\<close>)\<close>

text \<open>
  \<open>wf::pointf_t\<close> and \<open>wf::geometry_t\<close> (a \<open>wlr_box\<close> with integer \<open>x\<close>, \<open>y\<close>, \<open>width\<close>,
  \<open>height\<close>; the fields carry the prefix \<open>box_\<close> here). Doubles and floats are idealised as
  reals.
\<close>

record pointf_t =
  x :: real
  y :: real

record geometry_t =
  box_x :: int
  box_y :: int
  box_width :: int
  box_height :: int

definition point_minus :: "pointf_t \<Rightarrow> pointf_t \<Rightarrow> pointf_t" where
  "point_minus p q = \<lparr>x = x p - x q, y = y p - y q\<rparr>"

definition point_plus :: "pointf_t \<Rightarrow> pointf_t \<Rightarrow> pointf_t" where
  "point_plus p q = \<lparr>x = x p + x q, y = y p + y q\<rparr>"

text \<open>
  What locking the weak reference to the view yields: nothing, a toplevel with its
  geometry, or another view with the bounding box of its surface root node.
\<close>

datatype view_ref = Dead_view | Toplevel_view geometry_t | Other_view geometry_t

definition get_center_box :: "geometry_t \<Rightarrow> pointf_t" where
  "get_center_box v =
     \<lparr>x = real_of_int (box_x v) + real_of_int (box_width v) / 2,
      y = real_of_int (box_y v) + real_of_int (box_height v) / 2\<rparr>"

fun get_center :: "view_ref \<Rightarrow> pointf_t" where
  "get_center (Toplevel_view g) = get_center_box g"
| "get_center (Other_view bbox) = get_center_box bbox"
| "get_center Dead_view = \<lparr>x = 0, y = 0\<rparr>"

definition rotate_xy :: "pointf_t \<Rightarrow> real \<Rightarrow> pointf_t" where
  "rotate_xy p ang =
     (let cs = cos ang; sn = sin ang
      in \<lparr>x = cs * x p - sn * y p, y = sn * x p + cs * y p\<rparr>)"

record view_2d_transformer_t =
  view :: view_ref
  scale_x :: real
  scale_y :: real
  angle :: real
  translation_x :: real
  translation_y :: real

definition view_2d_to_local :: "view_2d_transformer_t \<Rightarrow> pointf_t \<Rightarrow> pointf_t" where
  "view_2d_to_local t point =
     (let midpoint = get_center (view t);
          r0 = point_minus point midpoint;
          r1 = r0\<lparr>x := x r0 - translation_x t\<rparr>;
          r2 = r1\<lparr>y := y r1 - translation_y t\<rparr>;
          r3 = rotate_xy r2 (angle t);
          r4 = r3\<lparr>x := x r3 / scale_x t\<rparr>;
          r5 = r4\<lparr>y := y r4 / scale_y t\<rparr>
      in point_plus r5 midpoint)"

definition view_2d_to_global :: "view_2d_transformer_t \<Rightarrow> pointf_t \<Rightarrow> pointf_t" where
  "view_2d_to_global t point =
     (let midpoint = get_center (view t);
          r0 = point_minus point midpoint;
          r1 = r0\<lparr>x := x r0 * scale_x t\<rparr>;
          r2 = r1\<lparr>y := y r1 * scale_y t\<rparr>;
          r3 = rotate_xy r2 (- angle t);
          r4 = r3\<lparr>x := x r3 + translation_x t\<rparr>;
          r5 = r4\<lparr>y := y r4 + translation_y t\<rparr>
      in point_plus r5 midpoint)"

section \<open>3D transformer (\<open>view_3d_transformer_t\<close>)\<close>

text \<open>
  A \<open>glm::mat4\<close> is column-major: \<open>m c r\<close> stands for \<open>m[c][r]\<close>, column \<open>c\<close>, row \<open>r\<close>,
  both below 4.
\<close>

type_synonym mat4 = "nat \<Rightarrow> nat \<Rightarrow> real"

definition mat4_mul :: "mat4 \<Rightarrow> mat4 \<Rightarrow> mat4" where
  "mat4_mul a b = (\<lambda>c r. a 0 r * b c 0 + a 1 r * b c 1 + a 2 r * b c 2 + a 3 r * b c 3)"

text \<open>\<open>glm::scale(glm::mat4(1.0), {sx, sy, sz})\<close>.\<close>

definition glm_scale :: "real \<Rightarrow> real \<Rightarrow> real \<Rightarrow> mat4" where
  "glm_scale sx sy sz =
     (\<lambda>c r. if c \<noteq> r then 0
             else if c = 0 then sx else if c = 1 then sy else if c = 2 then sz else 1)"

text \<open>\<open>children_bbox\<close> is what \<open>get_children_bounding_box()\<close> returns.\<close>

record view_3d_transformer_t =
  children_bbox :: geometry_t
  translation :: mat4
  view_proj :: mat4
  rotation :: mat4
  scaling :: mat4

definition get_center_relative_coords :: "geometry_t \<Rightarrow> pointf_t \<Rightarrow> pointf_t" where
  "get_center_relative_coords v point =
     \<lparr>x = (x point - real_of_int (box_x v)) - real_of_int (box_width v) / 2,
      y = real_of_int (box_height v) / 2 - (y point - real_of_int (box_y v))\<rparr>"

definition get_absolute_coords_from_relative :: "geometry_t \<Rightarrow> pointf_t \<Rightarrow> pointf_t" where
  "get_absolute_coords_from_relative v point =
     \<lparr>x = x point + real_of_int (box_x v) + real_of_int (box_width v) / 2,
      y = (real_of_int (box_height v) / 2 - y point) + real_of_int (box_y v)\<rparr>"

definition calculate_total_transform :: "view_3d_transformer_t \<Rightarrow> mat4" where
  "calculate_total_transform t =
     (let bbox = children_bbox t;
          scale0 = real_of_int (max (box_width bbox) (box_height bbox));
          scale1 = max scale0 1;
          depth_scale = glm_scale 1 1 (2 / scale1)
      in mat4_mul (mat4_mul (mat4_mul (mat4_mul (translation t) (view_proj t)) depth_scale)
           (rotation t)) (scaling t))"

text \<open>
  A \<open>glm::dmat2\<close> built from four numbers, column by column, its determinant and its
  inverse. The inverse divides by the determinant; a division by zero (which in floating
  point yields infinities and NaN) is the failure \<open>None\<close>.
\<close>

record dmat2 =
  m00 :: real
  m01 :: real
  m10 :: real
  m11 :: real

definition determinant :: "dmat2 \<Rightarrow> real" where
  "determinant A = m00 A * m11 A - m10 A * m01 A"

definition glm_inverse :: "dmat2 \<Rightarrow> dmat2 option" where
  "glm_inverse A =
     (if determinant A = 0 then None
      else let d = 1 / determinant A
           in Some \<lparr>m00 = m11 A * d, m01 = - m01 A * d, m10 = - m10 A * d, m11 = m00 A * d\<rparr>)"

definition dmat2_apply :: "dmat2 \<Rightarrow> pointf_t \<Rightarrow> pointf_t" where
  "dmat2_apply A b = \<lparr>x = m00 A * x b + m10 A * y b, y = m01 A * x b + m11 A * y b\<rparr>"

text \<open>
  Modelled from the spec: \<open>wf::compositor_core_t::invalid_coordinate\<close> is defined outside
  the sources at hand; the spec calls it an explicit "no solution" sentinel coordinate. It
  is a parameter of \<open>view_3d_to_local\<close>.
\<close>

definition view_3d_to_local ::
  "real \<Rightarrow> view_3d_transformer_t \<Rightarrow> pointf_t \<Rightarrow> pointf_t option" where
  "view_3d_to_local invalid_coordinate t point =
     (let wm_geom = children_bbox t;
          p = get_center_relative_coords wm_geom point;
          tr = calculate_total_transform t;
          A = \<lparr>m00 = x p * tr 0 3 - tr 0 0, m01 = y p * tr 0 3 - tr 0 1,
               m10 = x p * tr 1 3 - tr 1 0, m11 = y p * tr 1 3 - tr 1 1\<rparr>
      in if \<bar>determinant A\<bar> < 1 / 1000000
         then Some \<lparr>x = invalid_coordinate, y = invalid_coordinate\<rparr>
         else
           let b = \<lparr>x = tr 3 0 - x p * tr 3 3, y = tr 3 1 - y p * tr 3 3\<rparr>
           in case glm_inverse A of
                None \<Rightarrow> None
              | Some A_inv \<Rightarrow>
                  Some (get_absolute_coords_from_relative wm_geom (dmat2_apply A_inv b)))"

section \<open>Crossfade (\<open>crossfade_render_instance_t::render\<close>)\<close>

text \<open>
  \<open>std::pow\<close> on a base that is not negative, the only bases that occur for an overlay
  alpha of at least 0.
\<close>

definition pow :: "real \<Rightarrow> real \<Rightarrow> real" where
  "pow b e = b powr e"

record crossfade_node_t =
  displayed_geometry :: geometry_t
  overlay_alpha :: real

text \<open>What \<open>render\<close> hands to \<open>add_texture\<close>: where the snapshot is drawn and how opaque.\<close>

record texture_draw =
  draw_geometry :: geometry_t
  draw_alpha :: real

definition render :: "crossfade_node_t \<Rightarrow> texture_draw" where
  "render self_node =
     (let N = 2 :: real;
          ra = (if overlay_alpha self_node < 0.5
                then pow (overlay_alpha self_node * 2) (1 / N) / 2
                else pow ((overlay_alpha self_node - 0.5) * 2) N / 2 + 0.5)
      in \<lparr>draw_geometry = displayed_geometry self_node, draw_alpha = 1 - ra\<rparr>)"

text \<open>A manager with two transformers installed, at z-orders 1 and 5, above content node 2.\<close>

definition two_transformers :: "transform_manager_node_t \<times> scene" where
  "two_transformers =
     (\<lparr>self = 1, transformers = [\<lparr>node = 10, z_order = 1, name = ''a''\<rparr>,
                                    \<lparr>node = 12, z_order = 5, name = ''c''\<rparr>]\<rparr>,
      \<lparr>children = (\<lambda>_. [])(1 := [12], 12 := [10], 10 := [2]), events = []\<rparr>)"

text \<open>
  A 3D transformer whose view is turned a quarter turn about the vertical axis, so that it
  is seen edge-on: projection, view, translation and scaling are the identity.
\<close>

definition mat4_identity :: mat4 where
  "mat4_identity = (\<lambda>c r. if c = r then 1 else 0)"

definition rotate_y_quarter :: mat4 where
  "rotate_y_quarter =
     (\<lambda>c r. if c = 0 \<and> r = 2 then - 1 else if c = 1 \<and> r = 1 then 1
             else if c = 2 \<and> r = 0 then 1 else if c = 3 \<and> r = 3 then 1 else 0)"

definition edge_on_view :: view_3d_transformer_t where
  "edge_on_view =
     \<lparr>children_bbox = \<lparr>box_x = 100, box_y = 50, box_width = 200, box_height = 100\<rparr>,
      translation = mat4_identity, view_proj = mat4_identity,
      rotation = rotate_y_quarter, scaling = mat4_identity\<rparr>"

text \<open>The blend curve of the crossfade in the words of the specification, with \<open>N = 2\<close>.\<close>

definition blend :: "real \<Rightarrow> real" where
  "blend a = (if a < 1 / 2 then sqrt (2 * a) / 2 else ((a - 1 / 2) * 2)\<^sup>2 / 2 + 1 / 2)"

chapter \<open>Theorems\<close>

section \<open>Effect hook registry\<close>

lemma remove_all_absent: "v \<notin> set (remove_all v l)"
  by (induction l) auto

lemma remove_all_others: "filter (\<lambda>e. e \<noteq> v) (remove_all v l) = filter (\<lambda>e. e \<noteq> v) l"
  by (induction l) auto

lemma remove_all_filter: "remove_all v l = filter (\<lambda>e. e \<noteq> v) l"
  by (induction l) auto

lemma rem_effect_from_effects:
  "effects (rem_effect_from i hook m) k =
     (if i \<le> k \<and> k < OUTPUT_EFFECT_TOTAL then remove_all hook (effects m k) else effects m k)"
proof (induction i hook m rule: rem_effect_from.induct)
  case (1 i hook m)
  show ?case
  proof (cases "i < OUTPUT_EFFECT_TOTAL")
    case True
    then show ?thesis
      using "1.IH" [OF True] by (subst rem_effect_from.simps) auto
  next
    case False
    then show ?thesis by (subst rem_effect_from.simps) auto
  qed
qed

lemma rem_effect_stage:
  "k < OUTPUT_EFFECT_TOTAL \<Longrightarrow> effects (rem_effect h m) k = remove_all h (effects m k)"
  by (simp add: rem_effect_def rem_effect_from_effects)

lemma rem_effect_other_index:
  "\<not> k < OUTPUT_EFFECT_TOTAL \<Longrightarrow> effects (rem_effect h m) k = effects m k"
  by (simp add: rem_effect_def rem_effect_from_effects)

lemma stage_bounds:
  "OUTPUT_EFFECT_PRE < OUTPUT_EFFECT_TOTAL" "OUTPUT_EFFECT_DAMAGE < OUTPUT_EFFECT_TOTAL"
  "OUTPUT_EFFECT_OVERLAY < OUTPUT_EFFECT_TOTAL" "OUTPUT_EFFECT_POST < OUTPUT_EFFECT_TOTAL"
  by (simp_all add: OUTPUT_EFFECT_PRE_def OUTPUT_EFFECT_DAMAGE_def OUTPUT_EFFECT_OVERLAY_def
      OUTPUT_EFFECT_POST_def OUTPUT_EFFECT_TOTAL_def)

text \<open>
  Claim C10. For every hook pointer \<open>h\<close> and every registry state, after \<open>rem_effect h\<close> the
  pointer \<open>h\<close> occurs in none of the four stage lists (PRE, DAMAGE, OVERLAY, POST), however
  often and under whichever stages it was registered; the caller names no stage. The hooks
  other than \<open>h\<close> stay where they were: in every stage list they are the same, in the same
  order and with the same multiplicity.
\<close>

theorem rem_effect_removes_everywhere:
  "\<forall>stage \<in> {OUTPUT_EFFECT_PRE, OUTPUT_EFFECT_DAMAGE, OUTPUT_EFFECT_OVERLAY, OUTPUT_EFFECT_POST}.
      h \<notin> set (effects (rem_effect h m) stage) \<and>
      filter (\<lambda>g. g \<noteq> h) (effects (rem_effect h m) stage) = filter (\<lambda>g. g \<noteq> h) (effects m stage)"
  by (simp add: rem_effect_stage stage_bounds remove_all_absent remove_all_others)

theorem rem_effect_removes_everywhere_witness:
  "7 \<notin> set (effects (rem_effect 7
      \<lparr>effects = (\<lambda>_. [])(0 := [7, 3, 7], 2 := [7], 3 := [5, 7, 7, 9])\<rparr>) OUTPUT_EFFECT_PRE) \<and>
   7 \<notin> set (effects (rem_effect 7
      \<lparr>effects = (\<lambda>_. [])(0 := [7, 3, 7], 2 := [7], 3 := [5, 7, 7, 9])\<rparr>) OUTPUT_EFFECT_POST) \<and>
   filter (\<lambda>g. g \<noteq> 7) (effects (rem_effect 7
      \<lparr>effects = (\<lambda>_. [])(0 := [7, 3, 7], 2 := [7], 3 := [5, 7, 7, 9])\<rparr>) OUTPUT_EFFECT_POST) = [5, 9]"
  using rem_effect_removes_everywhere
    [of 7 "\<lparr>effects = (\<lambda>_. [])(0 := [7, 3, 7], 2 := [7], 3 := [5, 7, 7, 9])\<rparr>"]
  by (simp add: OUTPUT_EFFECT_POST_def)

section \<open>The scan-out query\<close>

text \<open>
  Claim C9. The scan-out query looks at emptiness only: the effect-hook registry answers
  "possible" exactly when its OVERLAY and POST lists are both empty, the postprocessing
  manager exactly when its chain has no stage, and \<open>do_direct_scanout\<close> reaches the attempt
  (\<open>try_scanout_from_list\<close>) only when both queries answer "possible". The two
  equivalences say that nothing else enters the answers.
\<close>

theorem scanout_query:
  "(can_scanout m \<longleftrightarrow> effects m OUTPUT_EFFECT_OVERLAY = [] \<and> effects m OUTPUT_EFFECT_POST = []) \<and>
   (can_scanout_post pm \<longleftrightarrow> post_effects pm = []) \<and>
   (do_direct_scanout_attempt i \<noteq> None \<longrightarrow>
      can_scanout (impl_effects i) \<and> can_scanout_post (postprocessing i))"
  by (simp add: can_scanout_def can_scanout_post_def size_sl_def do_direct_scanout_attempt_def Let_def)

theorem scanout_query_witness:
  "(let i = \<lparr>output_inhibit_counter = 0, impl_effects = \<lparr>effects = (\<lambda>_. [])(0 := [4])\<rparr>,
             postprocessing = \<lparr>post_effects = []\<rparr>, direct_scanout_allowed = True,
             icc_color_transform = None, env_allow_scanout = True,
             render_instances = [SKIP, SUCCESS, OCCLUSION]\<rparr>
    in do_direct_scanout_attempt i = Some SUCCESS \<and> do_direct_scanout i \<and>
       can_scanout (impl_effects i) \<and> can_scanout_post (postprocessing i))"
  using scanout_query [of "\<lparr>effects = (\<lambda>_. [])(0 := [4])\<rparr>" "\<lparr>post_effects = []\<rparr>"
      "\<lparr>output_inhibit_counter = 0, impl_effects = \<lparr>effects = (\<lambda>_. [])(0 := [4])\<rparr>,
             postprocessing = \<lparr>post_effects = []\<rparr>, direct_scanout_allowed = True,
             icc_color_transform = None, env_allow_scanout = True,
             render_instances = [SKIP, SUCCESS, OCCLUSION]\<rparr>"]
  by (simp add: do_direct_scanout_attempt_def do_direct_scanout_def can_scanout_def
      can_scanout_post_def size_sl_def OUTPUT_EFFECT_OVERLAY_def OUTPUT_EFFECT_POST_def)

section \<open>Frame pacer\<close>

lemma to_int64_of_int [simp]: "to_int64 (real_of_int k) = k"
  by (simp add: to_int64_def)

lemma to_int64_numeral [simp]: "to_int64 (numeral n) = numeral n" "to_int64 0 = 0"
  by (simp_all add: to_int64_def)

lemma to_int64_quotient:
  "0 \<le> a \<Longrightarrow> 0 < b \<Longrightarrow> to_int64 (real_of_int a / real_of_int b) = a div b"
  by (simp add: to_int64_def floor_divide_of_int_eq)

lemma refresh_ms_nonneg: "0 \<le> refresh_nsec p \<Longrightarrow> refresh_ms p = refresh_nsec p div 1000000"
  using to_int64_quotient [of "refresh_nsec p" 1000000] by (simp add: refresh_ms_def)

lemma refresh_ms_ge0: "0 \<le> refresh_nsec p \<Longrightarrow> 0 \<le> refresh_ms p"
  by (simp add: refresh_ms_nonneg pos_imp_zdiv_nonneg_iff)

lemma to_int64_three_halves: "0 \<le> r \<Longrightarrow> to_int64 (real_of_int r * 1.5) = (3 * r) div 2"
  using to_int64_quotient [of "3 * r" 2] by (simp add: field_simps)

lemma to_int64_three_quarters: "0 \<le> w \<Longrightarrow> to_int64 (real_of_int w * 0.75) = (3 * w) div 4"
  using to_int64_quotient [of "3 * w" 4] by (simp add: field_simps)

lemma on_time_iff:
  "0 \<le> r \<Longrightarrow> k \<le> to_int64 (real_of_int r * 1.5) \<longleftrightarrow> real_of_int k \<le> 1.5 * real_of_int r"
proof -
  assume r: "0 \<le> r"
  have "real_of_int k \<le> 1.5 * real_of_int r \<longleftrightarrow> real_of_int (2 * k) \<le> real_of_int (3 * r)"
    by (simp add: field_simps)
  also have "\<dots> \<longleftrightarrow> 2 * k \<le> 3 * r" by (simp only: of_int_le_iff)
  also have "\<dots> \<longleftrightarrow> k \<le> (3 * r) div 2" by presburger
  finally show ?thesis by (simp only: to_int64_three_halves [OF r])
qed

lemma clamp_between: "lo \<le> hi \<Longrightarrow> lo \<le> clamp v lo hi \<and> clamp v lo hi \<le> hi"
  by (simp add: clamp_def)

lemma clamp_point [simp]: "clamp v c c = c"
  by (simp add: clamp_def)

lemma clamp_inside: "lo \<le> v \<Longrightarrow> v \<le> hi \<Longrightarrow> clamp v lo hi = v"
  by (simp add: clamp_def)

lemma delay_update_delay:
  "delay (update_delay delta p) =
     (if max_render_time p = -1 then 0
      else if \<not> dynamic_delay p then max 0 (refresh_ms p - max_render_time p)
      else clamp (delay p + delta) 0 (max 0 (refresh_ms p - max_render_time p)))"
  by (simp add: update_delay_def Let_def)

lemma pacer_inv_initial: "pacer_inv (initial_pacer refresh mrt dyn)"
  by (simp add: pacer_inv_def initial_pacer_def MIN_INCREASE_WINDOW_def MAX_INCREASE_WINDOW_def)

lemma update_delay_fields [simp]:
  "increase_window (update_delay d p) = increase_window p"
  "last_increase (update_delay d p) = last_increase p"
  "expand_inc_window_on_miss (update_delay d p) = expand_inc_window_on_miss p"
  "consecutive_decrease (update_delay d p) = consecutive_decrease p"
  "last_pageflip (update_delay d p) = last_pageflip p"
  "refresh_nsec (update_delay d p) = refresh_nsec p"
  "max_render_time (update_delay d p) = max_render_time p"
  "dynamic_delay (update_delay d p) = dynamic_delay p"
  by (simp_all add: update_delay_def Let_def)

lemma pacer_inv_skip_frame: "pacer_inv p \<Longrightarrow> pacer_inv (skip_frame p)"
  by (simp add: pacer_inv_def skip_frame_def)

lemma start_frame_skipped:
  "last_pageflip p = -1 \<Longrightarrow> start_frame clk p = p\<lparr>last_pageflip := clk 0\<rparr>"
  by (simp add: start_frame_def)

lemma start_frame_increase:
  assumes "last_pageflip p \<noteq> -1"
    and "clk 0 - last_pageflip p \<le> to_int64 (real_of_int (refresh_ms p) * 1.5)"
    and "increase_window p \<le> clk 1 - last_increase p"
  shows "start_frame clk p =
     (update_delay 1 (p\<lparr>increase_window :=
          clamp (to_int64 (real_of_int (increase_window p) * 0.75))
            MIN_INCREASE_WINDOW MAX_INCREASE_WINDOW\<rparr>))
       \<lparr>last_increase := clk 2, expand_inc_window_on_miss := 20,
        consecutive_decrease := 1, last_pageflip := clk 3\<rparr>"
  using assms unfolding start_frame_def Let_def reset_increase_timer_def by simp

lemma start_frame_steady:
  assumes "last_pageflip p \<noteq> -1"
    and "clk 0 - last_pageflip p \<le> to_int64 (real_of_int (refresh_ms p) * 1.5)"
    and "\<not> increase_window p \<le> clk 1 - last_increase p"
  shows "start_frame clk p =
     p\<lparr>expand_inc_window_on_miss := expand_inc_window_on_miss p - 1,
       consecutive_decrease := 1, last_pageflip := clk 2\<rparr>"
  using assms unfolding start_frame_def Let_def reset_increase_timer_def by simp

lemma start_frame_missed:
  assumes "last_pageflip p \<noteq> -1"
    and "\<not> clk 0 - last_pageflip p \<le> to_int64 (real_of_int (refresh_ms p) * 1.5)"
  shows "start_frame clk p =
     (if expand_inc_window_on_miss p \<ge> 0
      then (update_delay (- consecutive_decrease p) p)
             \<lparr>consecutive_decrease := clamp (consecutive_decrease p * 2) 1 32,
              increase_window := clamp (increase_window p * 2)
                                   MIN_INCREASE_WINDOW MAX_INCREASE_WINDOW,
              last_increase := clk 1, last_pageflip := clk 2\<rparr>
      else (update_delay (- consecutive_decrease p) p)
             \<lparr>consecutive_decrease := clamp (consecutive_decrease p * 2) 1 32,
              last_increase := clk 1, last_pageflip := clk 2\<rparr>)"
  using assms unfolding start_frame_def Let_def reset_increase_timer_def by simp


lemma refresh_ms_update [simp]:
  "refresh_ms (p\<lparr>increase_window := w\<rparr>) = refresh_ms p"
  by (simp add: refresh_ms_def)

lemma update_delay_eq:
  "update_delay d p = p\<lparr>delay := min (max (delay p + d) (delay_lo p)) (delay_hi p)\<rparr>"
  by (simp add: update_delay_def Let_def clamp_def delay_lo_def delay_hi_def)

lemma delay_bounds_update [simp]:
  "delay_lo (p\<lparr>increase_window := w\<rparr>) = delay_lo p"
  "delay_hi (p\<lparr>increase_window := w\<rparr>) = delay_hi p"
  by (simp_all add: delay_lo_def delay_hi_def)

lemma clamp_double_backoff: "1 \<le> c \<Longrightarrow> clamp (c * 2) 1 32 = min (2 * c) 32"
  by (simp add: clamp_def max_def mult.commute)

lemma clamp_double_window:
  "MIN_INCREASE_WINDOW \<le> w \<Longrightarrow>
   clamp (w * 2) MIN_INCREASE_WINDOW MAX_INCREASE_WINDOW = min (2 * w) 30000"
  by (simp add: clamp_def max_def MIN_INCREASE_WINDOW_def MAX_INCREASE_WINDOW_def mult.commute)

lemma clamp_shrink_window:
  "0 \<le> w \<Longrightarrow>
   clamp (to_int64 (real_of_int w * 0.75)) MIN_INCREASE_WINDOW MAX_INCREASE_WINDOW =
     min (max (3 * w div 4) 200) 30000"
  by (simp only: to_int64_three_quarters clamp_def MIN_INCREASE_WINDOW_def MAX_INCREASE_WINDOW_def)

lemma pacer_inv_start_frame: "pacer_inv p \<Longrightarrow> pacer_inv (start_frame clk p)"
proof -
  assume inv: "pacer_inv p"
  then have b: "200 \<le> increase_window p" "increase_window p \<le> 30000"
      "1 \<le> consecutive_decrease p" "consecutive_decrease p \<le> 32"
    by (simp_all add: pacer_inv_def MIN_INCREASE_WINDOW_def MAX_INCREASE_WINDOW_def)
  have c: "200 \<le> clamp v MIN_INCREASE_WINDOW MAX_INCREASE_WINDOW"
      "clamp v MIN_INCREASE_WINDOW MAX_INCREASE_WINDOW \<le> 30000"
      "1 \<le> clamp u 1 32" "clamp u 1 32 \<le> 32" for v u
    by (simp_all add: clamp_def MIN_INCREASE_WINDOW_def MAX_INCREASE_WINDOW_def)
  consider (skipped) "last_pageflip p = -1"
    | (increase) "last_pageflip p \<noteq> -1"
        "clk 0 - last_pageflip p \<le> to_int64 (real_of_int (refresh_ms p) * 1.5)"
        "increase_window p \<le> clk 1 - last_increase p"
    | (steady) "last_pageflip p \<noteq> -1"
        "clk 0 - last_pageflip p \<le> to_int64 (real_of_int (refresh_ms p) * 1.5)"
        "\<not> increase_window p \<le> clk 1 - last_increase p"
    | (missed) "last_pageflip p \<noteq> -1"
        "\<not> clk 0 - last_pageflip p \<le> to_int64 (real_of_int (refresh_ms p) * 1.5)"
    by blast
  then show ?thesis
  proof cases
    case skipped
    then show ?thesis using inv by (simp add: start_frame_skipped pacer_inv_def)
  next
    case increase
    show ?thesis
      unfolding start_frame_increase [where clk = clk and p = p, OF increase] pacer_inv_def
      using c by (simp add: MIN_INCREASE_WINDOW_def MAX_INCREASE_WINDOW_def)
  next
    case steady
    show ?thesis
      unfolding start_frame_steady [where clk = clk and p = p, OF steady] pacer_inv_def
      using b by (simp add: MIN_INCREASE_WINDOW_def MAX_INCREASE_WINDOW_def)
  next
    case missed
    show ?thesis
      unfolding start_frame_missed [where clk = clk and p = p, OF missed] pacer_inv_def
      using b c by (simp add: MIN_INCREASE_WINDOW_def MAX_INCREASE_WINDOW_def)
  qed
qed

lemma pacer_at_fields [simp]:
  "delay (pacer_at d b m) = d" "increase_window (pacer_at d b m) = 200"
  "last_increase (pacer_at d b m) = 800" "expand_inc_window_on_miss (pacer_at d b m) = 3"
  "consecutive_decrease (pacer_at d b m) = b" "last_pageflip (pacer_at d b m) = 1000"
  "refresh_nsec (pacer_at d b m) = 16666666" "max_render_time (pacer_at d b m) = m"
  "dynamic_delay (pacer_at d b m) = True" "refresh_ms (pacer_at d b m) = 16"
  by (simp_all add: pacer_at_def refresh_ms_nonneg)

text \<open>
  Claim C2. After every delay update the delay lies in \<open>[0, configured_max]\<close>, where
  \<open>configured_max = max 0 (refresh_interval_ms - max_render_time_ms)\<close>; when no render-time
  budget is configured (\<open>max_render_time = -1\<close>) the delay is 0; when dynamic adjustment is
  disabled and a budget is configured the delay equals \<open>configured_max\<close>. The refresh
  interval in milliseconds is \<open>refresh_ms\<close>, the integer the code computes from
  \<open>refresh_nsec\<close>.
\<close>

theorem update_delay_range:
  "let p' = update_delay delta p;
       configured_max = max 0 (refresh_ms p - max_render_time p)
   in 0 \<le> delay p' \<and> delay p' \<le> configured_max \<and>
      (max_render_time p = -1 \<longrightarrow> delay p' = 0) \<and>
      (\<not> dynamic_delay p \<and> max_render_time p \<noteq> -1 \<longrightarrow> delay p' = configured_max)"
  using clamp_between [of 0 "max 0 (refresh_ms p - max_render_time p)" "delay p + delta"]
  by (simp add: delay_update_delay Let_def)

theorem update_delay_range_witness:
  "(let p = \<lparr>delay = 5, increase_window = 200, last_increase = 0,
              expand_inc_window_on_miss = 0, consecutive_decrease = 1, last_pageflip = 0,
              refresh_nsec = 16666666, max_render_time = 11, dynamic_delay = True\<rparr>
    in refresh_ms p = 16 \<and> delay (update_delay 1 p) = 5 \<and> delay (update_delay (- 2) p) = 3) \<and>
   delay (update_delay 1 \<lparr>delay = 5, increase_window = 200, last_increase = 0,
              expand_inc_window_on_miss = 0, consecutive_decrease = 1, last_pageflip = 0,
              refresh_nsec = 16666666, max_render_time = -1, dynamic_delay = True\<rparr>) = 0 \<and>
   delay (update_delay 1 \<lparr>delay = 2, increase_window = 200, last_increase = 0,
              expand_inc_window_on_miss = 0, consecutive_decrease = 1, last_pageflip = 0,
              refresh_nsec = 16666666, max_render_time = 11, dynamic_delay = False\<rparr>) = 5"
  using update_delay_range [of 1 "\<lparr>delay = 5, increase_window = 200, last_increase = 0,
              expand_inc_window_on_miss = 0, consecutive_decrease = 1, last_pageflip = 0,
              refresh_nsec = 16666666, max_render_time = -1, dynamic_delay = True\<rparr>"]
    update_delay_range [of 1 "\<lparr>delay = 2, increase_window = 200, last_increase = 0,
              expand_inc_window_on_miss = 0, consecutive_decrease = 1, last_pageflip = 0,
              refresh_nsec = 16666666, max_render_time = 11, dynamic_delay = False\<rparr>"]
  by (simp add: delay_update_delay refresh_ms_nonneg clamp_def Let_def)

lemma pacer_on_fields [simp]:
  "delay (pacer_on r g) = 2" "increase_window (pacer_on r g) = 200"
  "last_increase (pacer_on r g) = 800" "expand_inc_window_on_miss (pacer_on r g) = g"
  "consecutive_decrease (pacer_on r g) = 1" "last_pageflip (pacer_on r g) = 1000"
  "refresh_nsec (pacer_on r g) = r" "max_render_time (pacer_on r g) = 1"
  "dynamic_delay (pacer_on r g) = True"
  by (simp_all add: pacer_on_def)

lemma refresh_ms_pacer_on [simp]:
  "refresh_ms (pacer_on 6944444 g) = 6" "refresh_ms (pacer_on 16666666 g) = 16"
  by (simp_all add: refresh_ms_nonneg)

text \<open>
  Claim C1, as stated, fails on the code in three places.
  \<^item> The delay: the claim asks that on an on-time frame whose window has elapsed the delay
    increases by 1 ms, and that on a missed frame it decreases by the backoff factor. The
    code passes both changes through \<open>update_delay\<close>, which clamps: a pacer at its cap keeps
    its delay on an on-time frame, and a pacer at delay 0 keeps it on a missed frame.
  \<^item> The threshold: the claim compares the frame length with 1.5 times the refresh
    interval. The code first truncates the interval to whole milliseconds and then the
    product: on a 144 Hz output (6944444 ns) a frame of 10 ms is within 1.5 times 6.944 ms,
    but the code computes \<open>refresh = 6\<close> and a threshold of 9 ms and treats the frame as
    missed (the backoff factor becomes 2, not 1, and the grace counter is not armed).
  \<^item> The grace counter: armed with 20 and decremented once per on-time frame, it stands at
    0 when the 20 frames are over, and the comment at its declaration reads
    \<open>> 0 => Increase increase_window\<close>. The body tests \<open>>= 0\<close>: with the counter at 0 a missed
    frame still doubles \<open>increase_window\<close>.
\<close>

theorem start_frame_counterexample:
  "(real_of_int (1010 - last_pageflip (pacer_at 5 1 11)) \<le> 1.5 * real_of_int (refresh_ms (pacer_at 5 1 11)) \<and>
    1010 - last_increase (pacer_at 5 1 11) \<ge> increase_window (pacer_at 5 1 11) \<and>
    delay (start_frame (\<lambda>_. 1010) (pacer_at 5 1 11)) = 5 \<and>
    delay (start_frame (\<lambda>_. 1010) (pacer_at 5 1 11)) \<noteq> delay (pacer_at 5 1 11) + 1) \<and>
   (real_of_int (1030 - last_pageflip (pacer_at 0 1 11)) > 1.5 * real_of_int (refresh_ms (pacer_at 0 1 11)) \<and>
    delay (start_frame (\<lambda>_. 1030) (pacer_at 0 1 11)) = 0 \<and>
    delay (start_frame (\<lambda>_. 1030) (pacer_at 0 1 11)) \<noteq>
      delay (pacer_at 0 1 11) - consecutive_decrease (pacer_at 0 1 11)) \<and>
   (real_of_int (1010 - last_pageflip (pacer_on 6944444 3)) \<le>
      1.5 * (real_of_int (refresh_nsec (pacer_on 6944444 3)) / 1000000) \<and>
    1010 - last_increase (pacer_on 6944444 3) \<ge> increase_window (pacer_on 6944444 3) \<and>
    start_frame (\<lambda>_. 1010) (pacer_on 6944444 3) =
      (pacer_on 6944444 3)\<lparr>delay := 1, consecutive_decrease := 2, increase_window := 400,
         last_increase := 1010, last_pageflip := 1010\<rparr> \<and>
    consecutive_decrease (start_frame (\<lambda>_. 1010) (pacer_on 6944444 3)) \<noteq> 1 \<and>
    expand_inc_window_on_miss (start_frame (\<lambda>_. 1010) (pacer_on 6944444 3)) \<noteq> 20) \<and>
   (real_of_int (1030 - last_pageflip (pacer_on 16666666 0)) >
      1.5 * real_of_int (refresh_ms (pacer_on 16666666 0)) \<and>
    expand_inc_window_on_miss (pacer_on 16666666 0) = 0 \<and>
    increase_window (pacer_on 16666666 0) = 200 \<and>
    increase_window (start_frame (\<lambda>_. 1030) (pacer_on 16666666 0)) = 400)"
  by (simp add: start_frame_def Let_def to_int64_three_halves update_delay_eq delay_lo_def
      delay_hi_def delay_update_delay reset_increase_timer_def clamp_def
      MIN_INCREASE_WINDOW_def MAX_INCREASE_WINDOW_def)

text \<open>
  What \<open>start_frame\<close> does after a frame that was not skipped, when every clock reading of
  the invocation is \<open>now\<close>: the three cases, with the state after each.
\<close>

lemma start_frame_now:
  assumes "last_pageflip p \<noteq> -1" and "0 \<le> refresh_nsec p" and "pacer_inv p"
  shows
    "let frame_length = now - last_pageflip p;
         threshold = 1.5 * real_of_int (refresh_ms p);
         configured_max = max 0 (refresh_ms p - max_render_time p);
         lo = (if max_render_time p \<noteq> -1 \<and> \<not> dynamic_delay p then configured_max else 0);
         hi = (if max_render_time p = -1 then 0 else configured_max);
         p' = start_frame (\<lambda>_. now) p
     in (real_of_int frame_length \<le> threshold \<and> now - last_increase p \<ge> increase_window p \<longrightarrow>
           p' = p\<lparr>increase_window := min (max (3 * increase_window p div 4) 200) 30000,
                   delay := min (max (delay p + 1) lo) hi,
                   last_increase := now,
                   expand_inc_window_on_miss := 20,
                   consecutive_decrease := 1,
                   last_pageflip := now\<rparr>) \<and>
        (real_of_int frame_length \<le> threshold \<and> now - last_increase p < increase_window p \<longrightarrow>
           p' = p\<lparr>expand_inc_window_on_miss := expand_inc_window_on_miss p - 1,
                   consecutive_decrease := 1,
                   last_pageflip := now\<rparr>) \<and>
        (real_of_int frame_length > threshold \<longrightarrow>
           p' = p\<lparr>delay := min (max (delay p - consecutive_decrease p) lo) hi,
                   consecutive_decrease := min (2 * consecutive_decrease p) 32,
                   increase_window :=
                     (if expand_inc_window_on_miss p \<ge> 0
                      then min (2 * increase_window p) 30000 else increase_window p),
                   last_increase := now,
                   last_pageflip := now\<rparr>)"
proof -
  have r: "0 \<le> refresh_ms p" using assms(2) by (rule refresh_ms_ge0)
  have w: "0 \<le> increase_window p" "MIN_INCREASE_WINDOW \<le> increase_window p"
      "1 \<le> consecutive_decrease p"
    using assms(3) by (simp_all add: pacer_inv_def MIN_INCREASE_WINDOW_def)
  note thr = on_time_iff [OF r, of "now - last_pageflip p"]
  have lo: "delay_lo p = (if max_render_time p \<noteq> -1 \<and> \<not> dynamic_delay p
                          then max 0 (refresh_ms p - max_render_time p) else 0)"
    by (simp add: delay_lo_def)
  have hi: "delay_hi p = (if max_render_time p = -1 then 0
                          else max 0 (refresh_ms p - max_render_time p))"
    by (simp add: delay_hi_def)
  have inc: "start_frame (\<lambda>_. now) p =
      p\<lparr>increase_window := min (max (3 * increase_window p div 4) 200) 30000,
        delay := min (max (delay p + 1) (delay_lo p)) (delay_hi p),
        last_increase := now, expand_inc_window_on_miss := 20,
        consecutive_decrease := 1, last_pageflip := now\<rparr>"
    if a: "real_of_int (now - last_pageflip p) \<le> 1.5 * real_of_int (refresh_ms p)"
      and b: "increase_window p \<le> now - last_increase p"
  proof -
    from a have c: "now - last_pageflip p \<le> to_int64 (real_of_int (refresh_ms p) * 1.5)"
      by (simp only: thr)
    show ?thesis
      unfolding start_frame_increase [where clk = "\<lambda>_. now" and p = p, OF assms(1) c b]
        clamp_shrink_window [OF w(1)] update_delay_eq
      by simp
  qed
  have steady: "start_frame (\<lambda>_. now) p =
      p\<lparr>expand_inc_window_on_miss := expand_inc_window_on_miss p - 1,
        consecutive_decrease := 1, last_pageflip := now\<rparr>"
    if a: "real_of_int (now - last_pageflip p) \<le> 1.5 * real_of_int (refresh_ms p)"
      and b: "now - last_increase p < increase_window p"
  proof -
    from a have c: "now - last_pageflip p \<le> to_int64 (real_of_int (refresh_ms p) * 1.5)"
      by (simp only: thr)
    from b have d: "\<not> increase_window p \<le> now - last_increase p" by simp
    show ?thesis
      by (rule start_frame_steady [where clk = "\<lambda>_. now" and p = p, OF assms(1) c d])
  qed
  have missed: "start_frame (\<lambda>_. now) p =
      p\<lparr>delay := min (max (delay p - consecutive_decrease p) (delay_lo p)) (delay_hi p),
        consecutive_decrease := min (2 * consecutive_decrease p) 32,
        increase_window :=
          (if expand_inc_window_on_miss p \<ge> 0
           then min (2 * increase_window p) 30000 else increase_window p),
        last_increase := now, last_pageflip := now\<rparr>"
    if a: "real_of_int (now - last_pageflip p) > 1.5 * real_of_int (refresh_ms p)"
  proof -
    from a have c: "\<not> now - last_pageflip p \<le> to_int64 (real_of_int (refresh_ms p) * 1.5)"
      by (simp only: thr not_le)
    show ?thesis
      unfolding start_frame_missed [where clk = "\<lambda>_. now" and p = p, OF assms(1) c]
        clamp_double_backoff [OF w(3)] clamp_double_window [OF w(2)] update_delay_eq
      by simp
  qed
  show ?thesis
    unfolding Let_def lo [symmetric] hi [symmetric]
    using inc steady missed by blast
qed

text \<open>
  Claim C1, amended. On a wake-up that follows a frame not marked skipped, with
  \<open>frame_length = now - last_pageflip\<close> and \<open>threshold = 1.5 * refresh_interval\<close>, where the
  refresh interval is taken in whole milliseconds (\<open>refresh_nsec / 1e6\<close>, truncated), the
  pacer's state changes as follows, every clock reading of the invocation being \<open>now\<close>. On
  time and window elapsed: \<open>increase_window\<close> becomes three quarters of itself (rounded
  down, clamped to [200, 30000]), the delay becomes \<open>delay + 1\<close> clamped to the range of the
  delay update, the increase timer is reset, the grace counter is 20, the backoff factor
  is 1. On time and window not elapsed: the grace counter is decremented, the backoff
  factor is 1. Missed: the delay becomes \<open>delay - backoff\<close> clamped to the range of the delay
  update, the backoff factor doubles up to 32, the increase timer is reset;
  \<open>increase_window\<close> doubles up to 30000 when the grace counter is positive and keeps its
  value when the grace counter is negative (nothing is said for a grace counter of 0). In
  each case the last page flip is \<open>now\<close> and nothing else changes. The range of the delay
  update is \<open>[lo, hi]\<close> with \<open>hi = 0\<close> without a budget and \<open>hi = configured_max\<close> otherwise,
  \<open>lo = hi\<close> when dynamic adjustment is disabled with a budget and \<open>lo = 0\<close> otherwise.
\<close>

theorem start_frame_update:
  assumes "last_pageflip p \<noteq> -1" and "0 \<le> refresh_nsec p" and "pacer_inv p"
  shows
    "let frame_length = now - last_pageflip p;
         threshold = 1.5 * real_of_int (refresh_ms p);
         configured_max = max 0 (refresh_ms p - max_render_time p);
         lo = (if max_render_time p \<noteq> -1 \<and> \<not> dynamic_delay p then configured_max else 0);
         hi = (if max_render_time p = -1 then 0 else configured_max);
         p' = start_frame (\<lambda>_. now) p
     in (real_of_int frame_length \<le> threshold \<and> now - last_increase p \<ge> increase_window p \<longrightarrow>
           p' = p\<lparr>increase_window := min (max (3 * increase_window p div 4) 200) 30000,
                   delay := min (max (delay p + 1) lo) hi,
                   last_increase := now,
                   expand_inc_window_on_miss := 20,
                   consecutive_decrease := 1,
                   last_pageflip := now\<rparr>) \<and>
        (real_of_int frame_length \<le> threshold \<and> now - last_increase p < increase_window p \<longrightarrow>
           p' = p\<lparr>expand_inc_window_on_miss := expand_inc_window_on_miss p - 1,
                   consecutive_decrease := 1,
                   last_pageflip := now\<rparr>) \<and>
        (real_of_int frame_length > threshold \<longrightarrow>
           (\<exists>window.
              p' = p\<lparr>delay := min (max (delay p - consecutive_decrease p) lo) hi,
                      consecutive_decrease := min (2 * consecutive_decrease p) 32,
                      increase_window := window,
                      last_increase := now,
                      last_pageflip := now\<rparr> \<and>
              (0 < expand_inc_window_on_miss p \<longrightarrow>
                 window = min (2 * increase_window p) 30000) \<and>
              (expand_inc_window_on_miss p < 0 \<longrightarrow> window = increase_window p)))"
proof -
  note cases = start_frame_now [OF assms, of now, unfolded Let_def]
  show ?thesis
    unfolding Let_def
  proof (intro conjI impI)
    assume "real_of_int (now - last_pageflip p) \<le> 1.5 * real_of_int (refresh_ms p) \<and>
      increase_window p \<le> now - last_increase p"
    with cases show "start_frame (\<lambda>_. now) p =
        p\<lparr>increase_window := min (max (3 * increase_window p div 4) 200) 30000,
          delay := min (max (delay p + 1)
            (if max_render_time p \<noteq> -1 \<and> \<not> dynamic_delay p
             then max 0 (refresh_ms p - max_render_time p) else 0))
            (if max_render_time p = -1 then 0 else max 0 (refresh_ms p - max_render_time p)),
          last_increase := now, expand_inc_window_on_miss := 20,
          consecutive_decrease := 1, last_pageflip := now\<rparr>"
      by blast
  next
    assume "real_of_int (now - last_pageflip p) \<le> 1.5 * real_of_int (refresh_ms p) \<and>
      now - last_increase p < increase_window p"
    with cases show "start_frame (\<lambda>_. now) p =
        p\<lparr>expand_inc_window_on_miss := expand_inc_window_on_miss p - 1,
          consecutive_decrease := 1, last_pageflip := now\<rparr>"
      by blast
  next
    let ?w = "if expand_inc_window_on_miss p \<ge> 0
              then min (2 * increase_window p) 30000 else increase_window p"
    assume "1.5 * real_of_int (refresh_ms p) < real_of_int (now - last_pageflip p)"
    with cases have "start_frame (\<lambda>_. now) p =
        p\<lparr>delay := min (max (delay p - consecutive_decrease p)
            (if max_render_time p \<noteq> -1 \<and> \<not> dynamic_delay p
             then max 0 (refresh_ms p - max_render_time p) else 0))
            (if max_render_time p = -1 then 0 else max 0 (refresh_ms p - max_render_time p)),
          consecutive_decrease := min (2 * consecutive_decrease p) 32,
          increase_window := ?w, last_increase := now, last_pageflip := now\<rparr>"
      by blast
    moreover have "0 < expand_inc_window_on_miss p \<longrightarrow> ?w = min (2 * increase_window p) 30000"
      by simp
    moreover have "expand_inc_window_on_miss p < 0 \<longrightarrow> ?w = increase_window p"
      by simp
    ultimately show "\<exists>window.
        start_frame (\<lambda>_. now) p =
          p\<lparr>delay := min (max (delay p - consecutive_decrease p)
              (if max_render_time p \<noteq> -1 \<and> \<not> dynamic_delay p
               then max 0 (refresh_ms p - max_render_time p) else 0))
              (if max_render_time p = -1 then 0 else max 0 (refresh_ms p - max_render_time p)),
            consecutive_decrease := min (2 * consecutive_decrease p) 32,
            increase_window := window, last_increase := now, last_pageflip := now\<rparr> \<and>
        (0 < expand_inc_window_on_miss p \<longrightarrow> window = min (2 * increase_window p) 30000) \<and>
        (expand_inc_window_on_miss p < 0 \<longrightarrow> window = increase_window p)"
      by blast
  qed
qed

theorem start_frame_update_witness:
  "start_frame (\<lambda>_. 1010) (pacer_at 5 2 6) =
     (pacer_at 5 2 6)\<lparr>increase_window := 200, delay := 6, last_increase := 1010,
        expand_inc_window_on_miss := 20, consecutive_decrease := 1, last_pageflip := 1010\<rparr> \<and>
   start_frame (\<lambda>_. 1030) (pacer_at 5 2 6) =
     (pacer_at 5 2 6)\<lparr>delay := 3, consecutive_decrease := 4, increase_window := 400,
        last_increase := 1030, last_pageflip := 1030\<rparr>"
  using start_frame_update [of "pacer_at 5 2 6" 1010] start_frame_update [of "pacer_at 5 2 6" 1030]
  by (auto simp add: pacer_inv_def Let_def MIN_INCREASE_WINDOW_def MAX_INCREASE_WINDOW_def)

section \<open>Depth buffer cache\<close>

lemma find_attached_None: "find_attached fb bufs = None \<longleftrightarrow> (\<forall>b \<in> set bufs. attached_to b \<noteq> fb)"
  by (induction bufs) auto

lemma find_attached_Some:
  "find_attached fb bufs = Some i \<Longrightarrow> i < length bufs \<and> attached_to (bufs ! i) = fb"
proof (induction bufs arbitrary: i)
  case Nil
  then show ?case by simp
next
  case (Cons b bs)
  then show ?case by (auto split: if_splits)
qed

lemma evict_scan_first_minimum:
  assumes "drop i all = rest" and "oldest < length all" and "oldest < i \<or> oldest = 0"
    and "\<forall>j<i. last_used (all ! oldest) \<le> last_used (all ! j)"
    and "\<forall>j<oldest. last_used (all ! oldest) < last_used (all ! j)"
  shows "evict_scan all oldest i rest < length all \<and>
         (\<forall>j<length all. last_used (all ! evict_scan all oldest i rest) \<le> last_used (all ! j)) \<and>
         (\<forall>j<evict_scan all oldest i rest.
             last_used (all ! evict_scan all oldest i rest) < last_used (all ! j))"
  using assms
proof (induction rest arbitrary: oldest i)
  case Nil
  then have "length all \<le> i" by simp
  with Nil show ?case by simp
next
  case (Cons b rest)
  have i: "i < length all"
  proof (rule ccontr)
    assume "\<not> i < length all"
    then have "drop i all = []" by simp
    with Cons.prems(1) show False by simp
  qed
  from Cons_nth_drop_Suc [OF i] Cons.prems(1)
  have b: "b = all ! i" and rest: "drop (Suc i) all = rest" by simp_all
  show ?case
  proof (cases "last_used b < last_used (all ! oldest)")
    case True
    have "evict_scan all oldest i (b # rest) = evict_scan all i (Suc i) rest"
      using True by simp
    moreover have "\<forall>j<Suc i. last_used (all ! i) \<le> last_used (all ! j)"
      using True b Cons.prems(4) by (auto simp: less_Suc_eq)
    moreover have "\<forall>j<i. last_used (all ! i) < last_used (all ! j)"
      using True b Cons.prems(4) by fastforce
    ultimately show ?thesis
      using Cons.IH [where oldest = i and i = "Suc i"] rest i by simp
  next
    case False
    have "evict_scan all oldest i (b # rest) = evict_scan all oldest (Suc i) rest"
      using False by simp
    moreover have "\<forall>j<Suc i. last_used (all ! oldest) \<le> last_used (all ! j)"
      using False b Cons.prems(4) by (auto simp: less_Suc_eq)
    moreover have "oldest < Suc i \<or> oldest = 0" using Cons.prems(3) by auto
    ultimately show ?thesis
      using Cons.IH [where oldest = oldest and i = "Suc i"] rest Cons.prems(2) Cons.prems(5)
      by simp
  qed
qed

lemma evict_scan_oldest:
  assumes "bufs \<noteq> []"
  shows "evict_scan bufs 0 0 bufs < length bufs \<and>
         (\<forall>j<length bufs. last_used (bufs ! evict_scan bufs 0 0 bufs) \<le> last_used (bufs ! j)) \<and>
         (\<forall>j<evict_scan bufs 0 0 bufs.
             last_used (bufs ! evict_scan bufs 0 0 bufs) < last_used (bufs ! j))"
  using evict_scan_first_minimum [of 0 bufs bufs 0] assms by simp


lemma buffers_free_all [simp]: "fst (free_all_buffers (m, gl)) = m"
  by (simp add: free_all_buffers_def)

lemma length_attach_buffer [simp]:
  "length (buffers (fst (attach_buffer idx fb w h now (m, gl)))) = length (buffers m)"
  by (simp add: attach_buffer_def Let_def split: prod.splits)

lemma length_find_buffer:
  "length bufs \<le> MAX_BUFFERS \<Longrightarrow> length (fst (find_buffer fb bufs)) \<le> MAX_BUFFERS"
  by (simp add: find_buffer_def split: option.splits)

lemma length_ensure_depth_buffer:
  assumes "length (buffers (fst s)) \<le> MAX_BUFFERS"
  shows "length (buffers (fst (ensure_depth_buffer fb w h now s))) \<le> MAX_BUFFERS"
proof (cases s)
  case (Pair m gl)
  obtain bufs idx where f: "find_buffer fb (buffers m) = (bufs, idx)" by force
  have "length bufs \<le> MAX_BUFFERS"
    using length_find_buffer [of "buffers m" fb] assms Pair f by simp
  then show ?thesis
    using assms Pair f by (simp add: ensure_depth_buffer_def)
qed

lemma length_set_required:
  "length (buffers (fst (set_required require s))) = length (buffers (fst s))"
  by (cases s) (simp add: set_required_def Let_def)

lemma length_depth_step:
  "length (buffers (fst s)) \<le> MAX_BUFFERS \<Longrightarrow>
   length (buffers (fst (depth_step c s))) \<le> MAX_BUFFERS"
  by (cases c) (simp_all add: length_ensure_depth_buffer length_set_required)

lemma length_depth_run:
  "length (buffers (fst s)) \<le> MAX_BUFFERS \<Longrightarrow>
   length (buffers (fst (depth_run cs s))) \<le> MAX_BUFFERS"
  by (induction cs arbitrary: s) (simp_all add: length_depth_step)

text \<open>What one call of \<open>ensure_depth_buffer\<close> does, case by case.\<close>

lemma overwrite_depth_buffer:
  "(b :: depth_buffer_t)\<lparr>tex := t, width := w, height := h, attached_to := fb, last_used := now\<rparr> =
     \<lparr>tex = t, attached_to = fb, width = w, height = h, last_used = now\<rparr>"
  by (cases b) simp

lemma ensure_inactive:
  "fb = 0 \<or> required_counter m \<le> 0 \<Longrightarrow> ensure_depth_buffer fb w h now (m, gl) = (m, gl)"
  by (auto simp add: ensure_depth_buffer_def)

lemma ensure_new_entry:
  assumes "0 < required_counter m" and "fb \<noteq> 0" and "fb \<noteq> -1"
    and "find_attached fb (buffers m) = None" and "length (buffers m) < MAX_BUFFERS"
  shows "ensure_depth_buffer fb w h now (m, gl) =
           (m\<lparr>buffers := buffers m @ [attached fb w h now gl]\<rparr>, gl_attached fb w h gl)"
  using assms
  by (simp add: ensure_depth_buffer_def find_buffer_def attach_buffer_def Let_def
      default_depth_buffer_def free_buffer_def glGenTextures_def glTexImage2D_def
      glFramebufferTexture2D_def attached_def gl_attached_def)

lemma ensure_evicts:
  assumes "0 < required_counter m" and "fb \<noteq> 0"
    and "find_attached fb (buffers m) = None" and "\<not> length (buffers m) < MAX_BUFFERS"
  shows "ensure_depth_buffer fb w h now (m, gl) =
           (m\<lparr>buffers := (buffers m)
                [evict_scan (buffers m) 0 0 (buffers m) :=
                   attached fb w h now (free_buffer (buffers m ! evict_scan (buffers m) 0 0 (buffers m)) gl)]\<rparr>,
            gl_attached fb w h (free_buffer (buffers m ! evict_scan (buffers m) 0 0 (buffers m)) gl))"
proof -
  from assms(4) have ne: "buffers m \<noteq> []" by (auto simp: MAX_BUFFERS_def)
  let ?r = "evict_scan (buffers m) 0 0 (buffers m)"
  from evict_scan_oldest [OF ne] have r: "?r < length (buffers m)" by simp
  then have "buffers m ! ?r \<in> set (buffers m)" by simp
  with assms(3) have "attached_to (buffers m ! ?r) \<noteq> fb"
    by (simp add: find_attached_None)
  then show ?thesis
    using assms
    by (simp add: ensure_depth_buffer_def find_buffer_def attach_buffer_def Let_def
        glGenTextures_def glTexImage2D_def glFramebufferTexture2D_def attached_def
        gl_attached_def overwrite_depth_buffer)
qed

lemma next_name_free_buffer [simp]: "next_name (free_buffer b gl) = next_name gl"
  by (simp add: free_buffer_def glDeleteTextures_def)


lemma next_name_gl_attached [simp]: "next_name (gl_attached fb w h gl) = next_name gl + 1"
  by (simp add: gl_attached_def)

lemma four_inserts:
  assumes ids: "distinct [a, b, c, d]" "0 < a" "0 < b" "0 < c" "0 < d"
    and clock: "t1 \<le> t2" "t2 \<le> t3"
  shows "buffers (fst (depth_run
            [Set_required True, Ensure a w1 h1 t1, Ensure b w2 h2 t2, Ensure c w3 h3 t3,
             Ensure d w4 h4 t4] (initial_depth_manager, gl))) =
         [\<lparr>tex = next_name gl + 3, attached_to = d, width = w4, height = h4, last_used = t4\<rparr>,
          \<lparr>tex = next_name gl + 1, attached_to = b, width = w2, height = h2, last_used = t2\<rparr>,
          \<lparr>tex = next_name gl + 2, attached_to = c, width = w3, height = h3, last_used = t3\<rparr>]"
proof -
  define m1 where "m1 = \<lparr>required_counter = 1, buffers = []\<rparr>"
  define A where "A = attached a w1 h1 t1 gl"
  define gl1 where "gl1 = gl_attached a w1 h1 gl"
  define B where "B = attached b w2 h2 t2 gl1"
  define gl2 where "gl2 = gl_attached b w2 h2 gl1"
  define C where "C = attached c w3 h3 t3 gl2"
  define gl3 where "gl3 = gl_attached c w3 h3 gl2"
  have s1: "set_required True (initial_depth_manager, gl) = (m1, gl)"
    by (simp add: set_required_def initial_depth_manager_def m1_def Let_def)
  have s2: "ensure_depth_buffer a w1 h1 t1 (m1, gl) = (m1\<lparr>buffers := [A]\<rparr>, gl1)"
    using ids ensure_new_entry [of m1 a w1 h1 t1 gl]
    by (simp add: m1_def A_def gl1_def MAX_BUFFERS_def)
  have s3: "ensure_depth_buffer b w2 h2 t2 (m1\<lparr>buffers := [A]\<rparr>, gl1) =
              (m1\<lparr>buffers := [A, B]\<rparr>, gl2)"
    using ids ensure_new_entry [of "m1\<lparr>buffers := [A]\<rparr>" b w2 h2 t2 gl1]
    by (simp add: m1_def A_def B_def gl2_def MAX_BUFFERS_def attached_def)
  have s4: "ensure_depth_buffer c w3 h3 t3 (m1\<lparr>buffers := [A, B]\<rparr>, gl2) =
              (m1\<lparr>buffers := [A, B, C]\<rparr>, gl3)"
    using ids ensure_new_entry [of "m1\<lparr>buffers := [A, B]\<rparr>" c w3 h3 t3 gl2]
    by (simp add: m1_def A_def B_def C_def gl3_def MAX_BUFFERS_def attached_def)
  have oldest: "evict_scan [A, B, C] 0 0 [A, B, C] = 0"
    using clock by (simp add: A_def B_def C_def attached_def)
  have s5: "buffers (fst (ensure_depth_buffer d w4 h4 t4 (m1\<lparr>buffers := [A, B, C]\<rparr>, gl3))) =
              [attached d w4 h4 t4 (free_buffer A gl3), B, C]"
    using ids ensure_evicts [of "m1\<lparr>buffers := [A, B, C]\<rparr>" d w4 h4 t4 gl3] oldest
    by (simp add: m1_def A_def B_def C_def MAX_BUFFERS_def attached_def)
  have names: "next_name gl1 = next_name gl + 1" "next_name gl2 = next_name gl + 2"
      "next_name gl3 = next_name gl + 3"
    by (simp_all add: gl1_def gl2_def gl3_def)
  show ?thesis
    by (simp add: s1 s2 s3 s4 s5) (simp add: attached_def B_def C_def names)
qed

lemma four_inserts_oldest:
  assumes ids: "distinct [a, b, c, d]" "0 < a" "0 < b" "0 < c" "0 < d"
  shows "\<exists>r<3. (\<forall>j<3. [t1, t2, t3] ! r \<le> [t1, t2, t3] ! j) \<and>
           (\<forall>j<r. [t1, t2, t3] ! r < [t1, t2, t3] ! j) \<and>
           buffers (fst (depth_run
             [Set_required True, Ensure a w1 h1 t1, Ensure b w2 h2 t2, Ensure c w3 h3 t3,
              Ensure d w4 h4 t4] (initial_depth_manager, gl))) =
           [\<lparr>tex = next_name gl, attached_to = a, width = w1, height = h1, last_used = t1\<rparr>,
            \<lparr>tex = next_name gl + 1, attached_to = b, width = w2, height = h2, last_used = t2\<rparr>,
            \<lparr>tex = next_name gl + 2, attached_to = c, width = w3, height = h3, last_used = t3\<rparr>]
           [r := \<lparr>tex = next_name gl + 3, attached_to = d, width = w4, height = h4,
                   last_used = t4\<rparr>]"
proof -
  define m1 where "m1 = \<lparr>required_counter = 1, buffers = []\<rparr>"
  define A where "A = attached a w1 h1 t1 gl"
  define gl1 where "gl1 = gl_attached a w1 h1 gl"
  define B where "B = attached b w2 h2 t2 gl1"
  define gl2 where "gl2 = gl_attached b w2 h2 gl1"
  define C where "C = attached c w3 h3 t3 gl2"
  define gl3 where "gl3 = gl_attached c w3 h3 gl2"
  define r where "r = evict_scan [A, B, C] 0 0 [A, B, C]"
  have s1: "set_required True (initial_depth_manager, gl) = (m1, gl)"
    by (simp add: set_required_def initial_depth_manager_def m1_def Let_def)
  have s2: "ensure_depth_buffer a w1 h1 t1 (m1, gl) = (m1\<lparr>buffers := [A]\<rparr>, gl1)"
    using ids ensure_new_entry [of m1 a w1 h1 t1 gl]
    by (simp add: m1_def A_def gl1_def MAX_BUFFERS_def)
  have s3: "ensure_depth_buffer b w2 h2 t2 (m1\<lparr>buffers := [A]\<rparr>, gl1) =
              (m1\<lparr>buffers := [A, B]\<rparr>, gl2)"
    using ids ensure_new_entry [of "m1\<lparr>buffers := [A]\<rparr>" b w2 h2 t2 gl1]
    by (simp add: m1_def A_def B_def gl2_def MAX_BUFFERS_def attached_def)
  have s4: "ensure_depth_buffer c w3 h3 t3 (m1\<lparr>buffers := [A, B]\<rparr>, gl2) =
              (m1\<lparr>buffers := [A, B, C]\<rparr>, gl3)"
    using ids ensure_new_entry [of "m1\<lparr>buffers := [A, B]\<rparr>" c w3 h3 t3 gl2]
    by (simp add: m1_def A_def B_def C_def gl3_def MAX_BUFFERS_def attached_def)
  have att: "attached_to A = a" "attached_to B = b" "attached_to C = c"
    by (simp_all add: A_def B_def C_def attached_def)
  have none: "find_attached d (buffers (m1\<lparr>buffers := [A, B, C]\<rparr>)) = None"
    using ids by (simp add: att)
  have full: "\<not> length (buffers (m1\<lparr>buffers := [A, B, C]\<rparr>)) < MAX_BUFFERS"
    by (simp add: MAX_BUFFERS_def)
  have cnt: "0 < required_counter (m1\<lparr>buffers := [A, B, C]\<rparr>)" "d \<noteq> 0"
    using ids by (simp_all add: m1_def)
  have bufs: "buffers (m1\<lparr>buffers := [A, B, C]\<rparr>) = [A, B, C]" by simp
  have s5: "buffers (fst (ensure_depth_buffer d w4 h4 t4 (m1\<lparr>buffers := [A, B, C]\<rparr>, gl3))) =
              [A, B, C][r := attached d w4 h4 t4 (free_buffer ([A, B, C] ! r) gl3)]"
    unfolding ensure_evicts [OF cnt none full] bufs r_def by simp
  have names: "next_name gl1 = next_name gl + 1" "next_name gl2 = next_name gl + 2"
      "next_name gl3 = next_name gl + 3"
    by (simp_all add: gl1_def gl2_def gl3_def)
  have stamps: "last_used ([A, B, C] ! 0) = [t1, t2, t3] ! 0"
      "last_used ([A, B, C] ! 1) = [t1, t2, t3] ! 1"
      "last_used ([A, B, C] ! 2) = [t1, t2, t3] ! 2"
    by (simp_all add: A_def B_def C_def attached_def)
  have cases3: "j = 0 \<or> j = 1 \<or> j = 2" if "j < 3" for j :: nat
    using that by arith
  have stamp: "last_used ([A, B, C] ! j) = [t1, t2, t3] ! j" if "j < 3" for j
    using cases3 [OF that] stamps by blast
  have ne: "[A, B, C] \<noteq> []" by simp
  from evict_scan_oldest [OF ne]
  have r: "r < 3" "\<forall>j<3. last_used ([A, B, C] ! r) \<le> last_used ([A, B, C] ! j)"
      "\<forall>j<r. last_used ([A, B, C] ! r) < last_used ([A, B, C] ! j)"
    unfolding r_def by simp_all
  have min: "\<forall>j<3. [t1, t2, t3] ! r \<le> [t1, t2, t3] ! j"
  proof (intro allI impI)
    fix j :: nat assume j: "j < 3"
    with r(2) have "last_used ([A, B, C] ! r) \<le> last_used ([A, B, C] ! j)" by blast
    then show "[t1, t2, t3] ! r \<le> [t1, t2, t3] ! j"
      by (simp only: stamp [OF j] stamp [OF r(1)])
  qed
  have first: "\<forall>j<r. [t1, t2, t3] ! r < [t1, t2, t3] ! j"
  proof (intro allI impI)
    fix j :: nat assume j: "j < r"
    with r(1) have j3: "j < 3" by arith
    from r(3) j have "last_used ([A, B, C] ! r) < last_used ([A, B, C] ! j)" by blast
    then show "[t1, t2, t3] ! r < [t1, t2, t3] ! j"
      by (simp only: stamp [OF j3] stamp [OF r(1)])
  qed
  have D: "attached d w4 h4 t4 (free_buffer ([A, B, C] ! r) gl3) =
      \<lparr>tex = next_name gl + 3, attached_to = d, width = w4, height = h4, last_used = t4\<rparr>"
    by (simp add: attached_def names)
  have ABC: "[A, B, C] =
      [\<lparr>tex = next_name gl, attached_to = a, width = w1, height = h1, last_used = t1\<rparr>,
       \<lparr>tex = next_name gl + 1, attached_to = b, width = w2, height = h2, last_used = t2\<rparr>,
       \<lparr>tex = next_name gl + 2, attached_to = c, width = w3, height = h3, last_used = t3\<rparr>]"
    by (simp add: A_def B_def C_def attached_def names)
  have run: "buffers (fst (depth_run
             [Set_required True, Ensure a w1 h1 t1, Ensure b w2 h2 t2, Ensure c w3 h3 t3,
              Ensure d w4 h4 t4] (initial_depth_manager, gl))) =
           [A, B, C][r := attached d w4 h4 t4 (free_buffer ([A, B, C] ! r) gl3)]"
    by (simp add: s1 s2 s3 s4 s5)
  have "buffers (fst (depth_run
             [Set_required True, Ensure a w1 h1 t1, Ensure b w2 h2 t2, Ensure c w3 h3 t3,
              Ensure d w4 h4 t4] (initial_depth_manager, gl))) =
           [\<lparr>tex = next_name gl, attached_to = a, width = w1, height = h1, last_used = t1\<rparr>,
            \<lparr>tex = next_name gl + 1, attached_to = b, width = w2, height = h2, last_used = t2\<rparr>,
            \<lparr>tex = next_name gl + 2, attached_to = c, width = w3, height = h3, last_used = t3\<rparr>]
           [r := \<lparr>tex = next_name gl + 3, attached_to = d, width = w4, height = h4,
                   last_used = t4\<rparr>]"
    by (simp only: run D, simp only: ABC)
  with min first show ?thesis
    using r(1) by blast
qed

text \<open>
  What holds of the cache. After any history of calls from the empty cache the vector has
  at most 3 elements. When \<open>ensure_depth_buffer\<close> is called with the required counter
  positive and a nonzero framebuffer id for which no entry exists, and the cache is full,
  the entry that is overwritten is the first one whose field \<open>last_used\<close> is smallest; the
  other entries are untouched. After four distinct (positive) ids are inserted under
  \<open>set_required(true)\<close>, with no other call in between, the one of the first three with the
  smallest time stamp has been replaced by the fourth.
\<close>

lemma depth_cache_evicts_oldest_stamp:
  "length (buffers (fst (depth_run calls (initial_depth_manager, gl)))) \<le> 3 \<and>
   (0 < required_counter m \<and> fb \<noteq> 0 \<and> length (buffers m) = 3 \<and>
    (\<forall>e \<in> set (buffers m). attached_to e \<noteq> fb) \<longrightarrow>
      (\<exists>r<3.
         (\<forall>j<3. last_used (buffers m ! r) \<le> last_used (buffers m ! j)) \<and>
         (\<forall>j<r. last_used (buffers m ! r) < last_used (buffers m ! j)) \<and>
         buffers (fst (ensure_depth_buffer fb w h now (m, glb))) =
           (buffers m)[r := \<lparr>tex = next_name glb, attached_to = fb, width = w, height = h,
                                  last_used = now\<rparr>])) \<and>
   (distinct [a, b, c, d] \<and> 0 < a \<and> 0 < b \<and> 0 < c \<and> 0 < d \<longrightarrow>
      (\<exists>r<3.
         (\<forall>j<3. [tA, tB, tC] ! r \<le> [tA, tB, tC] ! j) \<and>
         (\<forall>j<r. [tA, tB, tC] ! r < [tA, tB, tC] ! j) \<and>
         buffers (fst (depth_run
            [Set_required True, Ensure a wA hA tA, Ensure b wB hB tB, Ensure c wC hC tC,
             Ensure d wD hD tD] (initial_depth_manager, glc))) =
           [\<lparr>tex = next_name glc, attached_to = a, width = wA, height = hA, last_used = tA\<rparr>,
            \<lparr>tex = next_name glc + 1, attached_to = b, width = wB, height = hB, last_used = tB\<rparr>,
            \<lparr>tex = next_name glc + 2, attached_to = c, width = wC, height = hC, last_used = tC\<rparr>]
           [r := \<lparr>tex = next_name glc + 3, attached_to = d, width = wD, height = hD,
                   last_used = tD\<rparr>]) \<and>
      (tA \<le> tB \<and> tB \<le> tC \<longrightarrow>
         buffers (fst (depth_run
            [Set_required True, Ensure a wA hA tA, Ensure b wB hB tB, Ensure c wC hC tC,
             Ensure d wD hD tD] (initial_depth_manager, glc))) =
           [\<lparr>tex = next_name glc + 3, attached_to = d, width = wD, height = hD, last_used = tD\<rparr>,
            \<lparr>tex = next_name glc + 1, attached_to = b, width = wB, height = hB, last_used = tB\<rparr>,
            \<lparr>tex = next_name glc + 2, attached_to = c, width = wC, height = hC, last_used = tC\<rparr>]))"
proof (intro conjI impI)
  show "length (buffers (fst (depth_run calls (initial_depth_manager, gl)))) \<le> 3"
    using length_depth_run [of "(initial_depth_manager, gl)" calls]
    by (simp add: initial_depth_manager_def MAX_BUFFERS_def)
next
  assume h: "0 < required_counter m \<and> fb \<noteq> 0 \<and> length (buffers m) = 3 \<and>
    (\<forall>e \<in> set (buffers m). attached_to e \<noteq> fb)"
  let ?r = "evict_scan (buffers m) 0 0 (buffers m)"
  from h have ne: "buffers m \<noteq> []" by auto
  from h have none: "find_attached fb (buffers m) = None" by (simp add: find_attached_None)
  from h have full: "\<not> length (buffers m) < MAX_BUFFERS" by (simp add: MAX_BUFFERS_def)
  have "buffers (fst (ensure_depth_buffer fb w h now (m, glb))) =
      (buffers m)[?r := \<lparr>tex = next_name glb, attached_to = fb, width = w, height = h,
                            last_used = now\<rparr>]"
    using ensure_evicts [OF _ _ none full, of w h now glb] h by (simp add: attached_def)
  with evict_scan_oldest [OF ne] h
  show "\<exists>r<3.
         (\<forall>j<3. last_used (buffers m ! r) \<le> last_used (buffers m ! j)) \<and>
         (\<forall>j<r. last_used (buffers m ! r) < last_used (buffers m ! j)) \<and>
         buffers (fst (ensure_depth_buffer fb w h now (m, glb))) =
           (buffers m)[r := \<lparr>tex = next_name glb, attached_to = fb, width = w, height = h,
                                  last_used = now\<rparr>]"
    by (intro exI [of _ ?r]) simp
next
  assume "distinct [a, b, c, d] \<and> 0 < a \<and> 0 < b \<and> 0 < c \<and> 0 < d"
  then show "\<exists>r<3.
         (\<forall>j<3. [tA, tB, tC] ! r \<le> [tA, tB, tC] ! j) \<and>
         (\<forall>j<r. [tA, tB, tC] ! r < [tA, tB, tC] ! j) \<and>
         buffers (fst (depth_run
            [Set_required True, Ensure a wA hA tA, Ensure b wB hB tB, Ensure c wC hC tC,
             Ensure d wD hD tD] (initial_depth_manager, glc))) =
           [\<lparr>tex = next_name glc, attached_to = a, width = wA, height = hA, last_used = tA\<rparr>,
            \<lparr>tex = next_name glc + 1, attached_to = b, width = wB, height = hB, last_used = tB\<rparr>,
            \<lparr>tex = next_name glc + 2, attached_to = c, width = wC, height = hC, last_used = tC\<rparr>]
           [r := \<lparr>tex = next_name glc + 3, attached_to = d, width = wD, height = hD,
                   last_used = tD\<rparr>]"
    by (intro four_inserts_oldest) simp_all
next
  assume "distinct [a, b, c, d] \<and> 0 < a \<and> 0 < b \<and> 0 < c \<and> 0 < d"
    and "tA \<le> tB \<and> tB \<le> tC"
  then show "buffers (fst (depth_run
          [Set_required True, Ensure a wA hA tA, Ensure b wB hB tB, Ensure c wC hC tC,
           Ensure d wD hD tD] (initial_depth_manager, glc))) =
        [\<lparr>tex = next_name glc + 3, attached_to = d, width = wD, height = hD, last_used = tD\<rparr>,
         \<lparr>tex = next_name glc + 1, attached_to = b, width = wB, height = hB, last_used = tB\<rparr>,
         \<lparr>tex = next_name glc + 2, attached_to = c, width = wC, height = hC, last_used = tC\<rparr>]"
    by (intro four_inserts) simp_all
qed

lemma depth_cache_evicts_oldest_stamp_example:
  "buffers (fst (ensure_depth_buffer 10 64 32 400 (full_cache, initial_gl))) =
     [\<lparr>tex = 4, attached_to = 7, width = 800, height = 600, last_used = 300\<rparr>,
      \<lparr>tex = 1, attached_to = 10, width = 64, height = 32, last_used = 400\<rparr>,
      \<lparr>tex = 6, attached_to = 9, width = 800, height = 600, last_used = 200\<rparr>] \<and>
   buffers (fst (depth_run
      [Set_required True, Ensure 7 800 600 100, Ensure 8 800 600 100, Ensure 9 800 600 120,
       Ensure 10 64 32 130] (initial_depth_manager, initial_gl))) =
     [\<lparr>tex = 4, attached_to = 10, width = 64, height = 32, last_used = 130\<rparr>,
      \<lparr>tex = 2, attached_to = 8, width = 800, height = 600, last_used = 100\<rparr>,
      \<lparr>tex = 3, attached_to = 9, width = 800, height = 600, last_used = 120\<rparr>]"
  using depth_cache_evicts_oldest_stamp [where m = full_cache and fb = 10 and w = 64 and h = 32
      and now = 400 and glb = initial_gl and a = 7 and b = 8 and c = 9 and d = 10
      and tA = 100 and tB = 100 and tC = 120 and tD = 130 and glc = initial_gl
      and wA = 800 and hA = 600 and wB = 800 and hB = 600 and wC = 800
      and hC = 600 and wD = 64 and hD = 32 and calls = "[]" and gl = initial_gl]
  by (auto simp add: full_cache_def initial_gl_def less_Suc_eq numeral_3_eq_3)

text \<open>
  Claim C4 says that the entry evicted from a full cache is the least recently used one.
  The time stamp \<open>last_used\<close> is written at the end of \<open>attach_buffer\<close> only, and
  \<open>attach_buffer\<close> returns before that when the entry found already has the framebuffer
  and the size asked for. A hit therefore leaves the stamp as it was. In the run below the
  framebuffers 7, 8 and 9 get their depth buffers at 100, 110 and 120 ms, framebuffer 7 is
  used again at 130 ms, and at 140 ms framebuffer 10 needs an entry: the entry of 7, the
  most recently used one, is evicted, and that of 8, unused since 110 ms, stays.
\<close>

theorem ensure_hit_keeps_stamp:
  "(let s3 = depth_run [Set_required True, Ensure 7 800 600 100, Ensure 8 800 600 110,
                        Ensure 9 800 600 120] (initial_depth_manager, initial_gl);
        s4 = ensure_depth_buffer 7 800 600 130 s3;
        s5 = ensure_depth_buffer 10 800 600 140 s4
    in map attached_to (buffers (fst s3)) = [7, 8, 9] \<and>
       map last_used (buffers (fst s3)) = [100, 110, 120] \<and>
       s4 = s3 \<and>
       map attached_to (buffers (fst s5)) = [10, 8, 9] \<and>
       map last_used (buffers (fst s5)) = [140, 110, 120])"
  by (simp add: set_required_def ensure_depth_buffer_def find_buffer_def attach_buffer_def
      free_buffer_def glGenTextures_def glTexImage2D_def
      glFramebufferTexture2D_def glDeleteTextures_def initial_depth_manager_def initial_gl_def
      default_depth_buffer_def MAX_BUFFERS_def Let_def)

text \<open>
  Claim C3 says that a \<open>set_required(false)\<close> that brings the counter to 0 or below leaves
  the cache empty, so that no later \<open>ensure_depth_buffer\<close> meets an entry from before.
  \<open>free_all_buffers\<close> deletes the textures but neither clears the vector nor resets the
  entries. The run below attaches a depth buffer to framebuffer 1, releases the
  requirement, requires it again and asks for the same framebuffer and size: the entry is
  still there, it names the deleted texture 1, and \<open>ensure_depth_buffer\<close> takes it for a
  valid attachment and does nothing.
\<close>

theorem set_required_leaves_stale_entries:
  "(let s1 = set_required True (initial_depth_manager, initial_gl);
        s2 = ensure_depth_buffer 1 800 600 100 s1;
        s3 = set_required False s2;
        s4 = set_required True s3;
        s5 = ensure_depth_buffer 1 800 600 200 s4
    in textures (snd s2) 1 = Some (800, 600) \<and>
       required_counter (fst s3) = 0 \<and>
       buffers (fst s3) =
         [\<lparr>tex = 1, attached_to = 1, width = 800, height = 600, last_used = 100\<rparr>] \<and>
       textures (snd s3) 1 = None \<and>
       s5 = s4 \<and>
       buffers (fst s5) =
         [\<lparr>tex = 1, attached_to = 1, width = 800, height = 600, last_used = 100\<rparr>] \<and>
       textures (snd s5) 1 = None)"
  by (simp add: set_required_def ensure_depth_buffer_def find_buffer_def attach_buffer_def
      free_all_buffers_def free_buffer_def glGenTextures_def glTexImage2D_def
      glFramebufferTexture2D_def glDeleteTextures_def initial_depth_manager_def initial_gl_def
      default_depth_buffer_def MAX_BUFFERS_def Let_def)

section \<open>Scene transform stack\<close>

lemma insert_pos_from_takeWhile:
  "pos \<le> length ts \<Longrightarrow>
   insert_pos_from pos ts z = pos + length (takeWhile (\<lambda>t. z_order t < z) (drop pos ts))"
proof (induction pos ts z rule: insert_pos_from.induct)
  case (1 pos ts z)
  show ?case
  proof (cases "pos < length ts \<and> z_order (ts ! pos) < z")
    case True
    then have d: "drop pos ts = ts ! pos # drop (Suc pos) ts"
      by (simp add: Cons_nth_drop_Suc)
    from True "1.IH" have "insert_pos_from (Suc pos) ts z =
        Suc pos + length (takeWhile (\<lambda>t. z_order t < z) (drop (Suc pos) ts))"
      by simp
    with True d show ?thesis
      by (subst insert_pos_from.simps) simp
  next
    case False
    show ?thesis
    proof (cases "pos < length ts")
      case True
      with False have "\<not> z_order (ts ! pos) < z" by simp
      moreover from True have "drop pos ts = ts ! pos # drop (Suc pos) ts"
        by (simp add: Cons_nth_drop_Suc)
      ultimately show ?thesis using False
        by (subst insert_pos_from.simps) simp
    next
      case False
      with "1.prems" have "drop pos ts = []" by simp
      with False show ?thesis
        by (subst insert_pos_from.simps) simp
    qed
  qed
qed

lemma insert_pos: "insert_pos_from 0 ts z = length (takeWhile (\<lambda>t. z_order t < z) ts)"
  using insert_pos_from_takeWhile [of 0 ts z] by simp

lemma transformers_add_transformer:
  "transformers (fst (add_transformer n z nm (tm, sc))) =
     takeWhile (\<lambda>t. z_order t < z) (transformers tm) @
       \<lparr>node = n, z_order = z, name = nm\<rparr> # dropWhile (\<lambda>t. z_order t < z) (transformers tm)"
  by (simp add: add_transformer_def Let_def insert_pos vector_insert_def
      takeWhile_eq_take [symmetric] dropWhile_eq_drop [symmetric])

lemma sorted_insert_before_ge:
  assumes "sorted (map z_order ts)"
  shows "sorted (map z_order (takeWhile (\<lambda>t. z_order t < z) ts @
           \<lparr>node = n, z_order = z, name = nm\<rparr> # dropWhile (\<lambda>t. z_order t < z) ts))"
    and "\<forall>t \<in> set (dropWhile (\<lambda>t. z_order t < z) ts). z \<le> z_order t"
  using assms
proof (induction ts)
  case Nil
  { case 1 show ?case by simp }
  { case 2 show ?case by simp }
next
  case (Cons t ts)
  { case 1 
    with Cons show ?case by (auto simp: sorted_append dest: set_takeWhileD) }
  { case 2
    with Cons show ?case by auto }
qed


lemma sorted_add_transformers:
  "sorted (map z_order (transformers (fst s))) \<Longrightarrow>
   sorted (map z_order (transformers (fst (add_transformers xs s))))"
proof (induction xs arbitrary: s)
  case Nil
  then show ?case by simp
next
  case (Cons a xs)
  obtain n z nm where a: "a = (n, z, nm)" by (cases a)
  obtain tm sc where s: "s = (tm, sc)" by (cases s)
  have "sorted (map z_order (transformers (fst (add_transformer n z nm s))))"
    using Cons.prems sorted_insert_before_ge(1) [of "transformers tm" z n nm]
    by (simp add: s transformers_add_transformer)
  then show ?case
    using Cons.IH [of "add_transformer n z nm s"] by (simp add: a)
qed

lemma children_add_transformer:
  "children (snd (add_transformer n z nm (tm, sc))) =
     (let after = dropWhile (\<lambda>t. z_order t < z) (transformers tm);
          parent = (if after = [] then self tm else node (hd after))
      in (children sc)(parent := [n], n := children sc parent))"
proof -
  let ?ts = "transformers tm"
  let ?pos = "length (takeWhile (\<lambda>t. z_order t < z) ?ts)"
  have drop: "dropWhile (\<lambda>t. z_order t < z) ?ts = drop ?pos ?ts"
    by (simp add: dropWhile_eq_drop)
  have e: "(?pos = length ?ts) = (drop ?pos ?ts = [])"
    using length_takeWhile_le [of "\<lambda>t. z_order t < z" ?ts] by auto
  have h: "?pos \<noteq> length ?ts \<Longrightarrow> ?ts ! ?pos = hd (drop ?pos ?ts)"
    using length_takeWhile_le [of "\<lambda>t. z_order t < z" ?ts]
    by (simp add: hd_drop_conv_nth)
  show ?thesis
    unfolding drop
    by (auto simp add: add_transformer_def Let_def insert_pos get_children_def
        set_children_list_def damage_node_def update_children_list_def e h)
qed

text \<open>
  Claim C5, as stated, places the new transformer before the first existing transformer
  whose z-order is strictly greater, so that of two transformers with the same z-order the
  one inserted first comes first. The loop of \<open>_add_transformer\<close> stops at the first
  existing transformer whose z-order is not smaller: inserting two transformers with
  z-order 1 puts the second one in front of the first.
\<close>

theorem add_transformer_ties_counterexample:
  "map node (transformers (fst (add_transformers [(10, 1, ''first''), (11, 1, ''second'')]
      (\<lparr>self = 1, transformers = []\<rparr>, \<lparr>children = (\<lambda>_. [])(1 := [2]), events = []\<rparr>)))) =
     [11, 10] \<and>
   map z_order (transformers (fst (add_transformers [(10, 1, ''first''), (11, 1, ''second'')]
      (\<lparr>self = 1, transformers = []\<rparr>, \<lparr>children = (\<lambda>_. [])(1 := [2]), events = []\<rparr>)))) =
     [1, 1]"
  by (simp add: add_transformer_def Let_def insert_pos vector_insert_def)

text \<open>
  Claim C5, amended. \<open>add_transformer\<close> inserts the new transformer immediately before the
  first existing transformer whose z-order is greater than or equal to the new one (at the
  end when there is none): every transformer before it has a smaller z-order, and every
  existing transformer with the same z-order comes after it, so among transformers with
  equal z-order the one inserted last occupies the earlier position. A list sorted by
  ascending z-order stays sorted, and so the list is sorted after any sequence of
  insertions into an empty manager. The new node is spliced between the chosen parent (the
  transformer it was inserted before, or the manager itself) and that parent's previous
  children; no other node's children change.
\<close>

theorem add_transformer_splice:
  "(let ts = transformers tm;
        before = takeWhile (\<lambda>t. z_order t < z) ts;
        after = dropWhile (\<lambda>t. z_order t < z) ts;
        parent = (if after = [] then self tm else node (hd after));
        s' = add_transformer n z nm (tm, sc)
    in transformers (fst s') = before @ \<lparr>node = n, z_order = z, name = nm\<rparr> # after \<and>
       (\<forall>t \<in> set before. z_order t < z) \<and>
       (after \<noteq> [] \<longrightarrow> z \<le> z_order (hd after)) \<and>
       (\<forall>t \<in> set ts. z_order t = z \<longrightarrow> t \<in> set after) \<and>
       (sorted (map z_order ts) \<longrightarrow>
          sorted (map z_order (transformers (fst s'))) \<and> (\<forall>t \<in> set after. z \<le> z_order t)) \<and>
       (n \<noteq> parent \<longrightarrow>
          children (snd s') parent = [n] \<and> children (snd s') n = children sc parent \<and>
          (\<forall>k. k \<noteq> parent \<and> k \<noteq> n \<longrightarrow> children (snd s') k = children sc k))) \<and>
   sorted (map z_order (transformers (fst (add_transformers ins
      (\<lparr>self = mgr, transformers = []\<rparr>, sc0)))))"
proof -
  let ?P = "\<lambda>t. z_order t < z"
  let ?ts = "transformers tm"
  have a: "\<forall>t \<in> set (takeWhile ?P ?ts). z_order t < z"
    by (auto dest: set_takeWhileD)
  have b: "dropWhile ?P ?ts \<noteq> [] \<longrightarrow> z \<le> z_order (hd (dropWhile ?P ?ts))"
  proof
    assume "dropWhile ?P ?ts \<noteq> []"
    then have "\<not> ?P (hd (dropWhile ?P ?ts))" by (rule hd_dropWhile)
    then show "z \<le> z_order (hd (dropWhile ?P ?ts))" by simp
  qed
  have c: "\<forall>t \<in> set ?ts. z_order t = z \<longrightarrow> t \<in> set (dropWhile ?P ?ts)"
  proof (intro ballI impI)
    fix t assume "t \<in> set ?ts" "z_order t = z"
    then have "t \<in> set (takeWhile ?P ?ts @ dropWhile ?P ?ts)" "\<not> ?P t" by simp_all
    then show "t \<in> set (dropWhile ?P ?ts)"
      using a by (auto simp del: takeWhile_dropWhile_id)
  qed
  have d: "sorted (map z_order ?ts) \<longrightarrow>
      sorted (map z_order (takeWhile ?P ?ts @ \<lparr>node = n, z_order = z, name = nm\<rparr> #
        dropWhile ?P ?ts)) \<and> (\<forall>t \<in> set (dropWhile ?P ?ts). z \<le> z_order t)"
    using sorted_insert_before_ge(1) [of ?ts z n nm] sorted_insert_before_ge(2) [of ?ts z]
    by blast
  have e: "sorted (map z_order (transformers (fst (add_transformers ins
      (\<lparr>self = mgr, transformers = []\<rparr>, sc0)))))"
    by (rule sorted_add_transformers) simp
  show ?thesis
    using a b c d e
    by (simp add: Let_def transformers_add_transformer children_add_transformer)
qed

theorem add_transformer_splice_witness:
  "map node (transformers (fst (add_transformer 11 3 ''b'' two_transformers))) = [10, 11, 12] \<and>
   children (snd (add_transformer 11 3 ''b'' two_transformers)) 12 = [11] \<and>
   children (snd (add_transformer 11 3 ''b'' two_transformers)) 11 = [10] \<and>
   children (snd (add_transformer 11 3 ''b'' two_transformers)) 10 = [2]"
  using add_transformer_splice [of "fst two_transformers" 3 11 "''b''" "snd two_transformers"
      "[]" 1 "snd two_transformers"]
  by (simp add: two_transformers_def Let_def)

section \<open>2D transformer\<close>

lemma cos_sin_unit: "(w::real) * (cos a * cos a) + w * (sin a * sin a) = w"
  by (simp flip: distrib_left)

lemma rotate_back_x: "cos (a::real) * (cos a * u - sin a * v) + sin a * (sin a * u + cos a * v) = u"
  by (simp add: field_simps cos_sin_unit)

lemma rotate_back_y: "cos (a::real) * (sin a * u + cos a * v) - sin a * (cos a * u - sin a * v) = v"
  by (simp add: field_simps cos_sin_unit)

lemma pointf_eta: "\<lparr>x = x (r :: pointf_t), y = y r\<rparr> = r"
  by (cases r) simp

lemma rotate_xy_inverse: "rotate_xy (rotate_xy p ang) (- ang) = p"
  by (cases p) (simp add: rotate_xy_def Let_def rotate_back_x rotate_back_y)

text \<open>
  Claim C6. For every point \<open>P\<close> and every 2D transformer whose two scale factors are not
  zero, whatever its rotation angle and translation, \<open>to_global (to_local P) = P\<close>, exactly
  over the reals.
\<close>

theorem view_2d_round_trip:
  assumes "scale_x t \<noteq> 0" and "scale_y t \<noteq> 0"
  shows "view_2d_to_global t (view_2d_to_local t point) = point"
proof -
  define mid where "mid = get_center (view t)"
  define q where "q = \<lparr>x = x point - x mid - translation_x t, y = y point - y mid - translation_y t\<rparr>"
  define r where "r = rotate_xy q (angle t)"
  have loc: "view_2d_to_local t point =
      \<lparr>x = x r / scale_x t + x mid, y = y r / scale_y t + y mid\<rparr>"
    by (simp add: view_2d_to_local_def Let_def point_minus_def point_plus_def mid_def q_def
        r_def rotate_xy_def)
  have "view_2d_to_global t (view_2d_to_local t point) =
      \<lparr>x = x (rotate_xy r (- angle t)) + translation_x t + x mid,
       y = y (rotate_xy r (- angle t)) + translation_y t + y mid\<rparr>"
    unfolding loc using assms
    by (simp add: view_2d_to_global_def Let_def point_minus_def point_plus_def pointf_eta
        flip: mid_def)
  also have "rotate_xy r (- angle t) = q"
    unfolding r_def by (rule rotate_xy_inverse)
  also have "\<lparr>x = x q + translation_x t + x mid, y = y q + translation_y t + y mid\<rparr> = point"
    by (cases point) (simp add: q_def)
  finally show ?thesis .
qed


theorem view_2d_round_trip_witness:
  "view_2d_to_local
     \<lparr>view = Toplevel_view \<lparr>box_x = 100, box_y = 50, box_width = 200, box_height = 100\<rparr>,
      scale_x = 2, scale_y = 4, angle = 0, translation_x = 10, translation_y = 20\<rparr>
     \<lparr>x = 230, y = 140\<rparr> = \<lparr>x = 210, y = 105\<rparr> \<and>
   view_2d_to_global
     \<lparr>view = Toplevel_view \<lparr>box_x = 100, box_y = 50, box_width = 200, box_height = 100\<rparr>,
      scale_x = 2, scale_y = 4, angle = 0, translation_x = 10, translation_y = 20\<rparr>
     \<lparr>x = 210, y = 105\<rparr> = \<lparr>x = 230, y = 140\<rparr>"
proof -
  have l: "view_2d_to_local
     \<lparr>view = Toplevel_view \<lparr>box_x = 100, box_y = 50, box_width = 200, box_height = 100\<rparr>,
      scale_x = 2, scale_y = 4, angle = 0, translation_x = 10, translation_y = 20\<rparr>
     \<lparr>x = 230, y = 140\<rparr> = \<lparr>x = 210, y = 105\<rparr>"
    by (simp add: view_2d_to_local_def Let_def point_minus_def point_plus_def rotate_xy_def
        get_center_box_def)
  show ?thesis
    using view_2d_round_trip
      [of "\<lparr>view = Toplevel_view \<lparr>box_x = 100, box_y = 50, box_width = 200, box_height = 100\<rparr>,
            scale_x = 2, scale_y = 4, angle = 0, translation_x = 10, translation_y = 20\<rparr>"
          "\<lparr>x = 230, y = 140\<rparr>"]
    by (simp add: l)
qed

section \<open>3D transformer\<close>

lemma glm_inverse_defined: "determinant A \<noteq> 0 \<Longrightarrow> glm_inverse A \<noteq> None"
  by (simp add: glm_inverse_def Let_def)

text \<open>
  Claim C7. For every input point, when the determinant of the 2x2 system that
  \<open>to_local\<close> derives from the total transform (under the assumption \<open>z = 0\<close>) has magnitude
  below \<open>1e-6\<close>, \<open>to_local\<close> returns the invalid-coordinate sentinel in both components. It
  does so without dividing by the determinant: a division by zero is the failure \<open>None\<close> of
  the model, and \<open>to_local\<close> never fails, for any transform and point.
\<close>

theorem view_3d_to_local_singular:
  "(let p = get_center_relative_coords (children_bbox t) point;
        tr = calculate_total_transform t;
        det = (x p * tr 0 3 - tr 0 0) * (y p * tr 1 3 - tr 1 1) -
              (x p * tr 1 3 - tr 1 0) * (y p * tr 0 3 - tr 0 1)
    in \<bar>det\<bar> < 1 / 1000000 \<longrightarrow>
         view_3d_to_local invalid_coordinate t point =
           Some \<lparr>x = invalid_coordinate, y = invalid_coordinate\<rparr>) \<and>
   view_3d_to_local invalid_coordinate t point \<noteq> None"
proof -
  define p where "p = get_center_relative_coords (children_bbox t) point"
  define tr where "tr = calculate_total_transform t"
  define A where "A = \<lparr>m00 = x p * tr 0 3 - tr 0 0, m01 = y p * tr 0 3 - tr 0 1,
                         m10 = x p * tr 1 3 - tr 1 0, m11 = y p * tr 1 3 - tr 1 1\<rparr>"
  have det: "determinant A = (x p * tr 0 3 - tr 0 0) * (y p * tr 1 3 - tr 1 1) -
              (x p * tr 1 3 - tr 1 0) * (y p * tr 0 3 - tr 0 1)"
    by (simp add: determinant_def A_def)
  have unfold: "view_3d_to_local invalid_coordinate t point =
      (if \<bar>determinant A\<bar> < 1 / 1000000
       then Some \<lparr>x = invalid_coordinate, y = invalid_coordinate\<rparr>
       else case glm_inverse A of
              None \<Rightarrow> None
            | Some A_inv \<Rightarrow>
                Some (get_absolute_coords_from_relative (children_bbox t)
                  (dmat2_apply A_inv \<lparr>x = tr 3 0 - x p * tr 3 3, y = tr 3 1 - y p * tr 3 3\<rparr>)))"
    by (simp only: view_3d_to_local_def Let_def p_def tr_def A_def)
  have total: "view_3d_to_local invalid_coordinate t point \<noteq> None"
  proof (cases "\<bar>determinant A\<bar> < 1 / 1000000")
    case True
    then show ?thesis by (simp add: unfold)
  next
    case False
    then have "determinant A \<noteq> 0" by auto
    then obtain A_inv where "glm_inverse A = Some A_inv"
      using glm_inverse_defined by blast
    with False show ?thesis by (simp add: unfold)
  qed
  have "\<bar>determinant A\<bar> < 1 / 1000000 \<longrightarrow>
      view_3d_to_local invalid_coordinate t point =
        Some \<lparr>x = invalid_coordinate, y = invalid_coordinate\<rparr>"
    by (simp add: unfold)
  with total show ?thesis
    unfolding Let_def det p_def tr_def by (rule conjI [rotated])
qed

lemma edge_on_transform:
  "calculate_total_transform edge_on_view 0 r = (if r = 2 then - 1 / 100 else 0)"
  "calculate_total_transform edge_on_view (Suc 0) r = (if r = Suc 0 then 1 else 0)"
  by (simp_all add: calculate_total_transform_def edge_on_view_def mat4_mul_def glm_scale_def
      mat4_identity_def rotate_y_quarter_def Let_def)

theorem view_3d_to_local_singular_witness:
  "view_3d_to_local (- 1) edge_on_view \<lparr>x = 230, y = 140\<rparr> = Some \<lparr>x = - 1, y = - 1\<rparr>"
  using view_3d_to_local_singular [of edge_on_view "\<lparr>x = 230, y = 140\<rparr>" "- 1"]
  by (simp add: Let_def edge_on_transform)

section \<open>Crossfade\<close>

lemma pow_half: "0 \<le> b \<Longrightarrow> pow b (1 / 2) = sqrt b"
  by (simp add: pow_def powr_half_sqrt)

lemma pow_two: "0 \<le> b \<Longrightarrow> pow b 2 = b\<^sup>2"
  by (simp add: pow_def)

lemma draw_alpha_render:
  assumes "0 \<le> a"
  shows "draw_alpha (render \<lparr>displayed_geometry = g, overlay_alpha = a\<rparr>) = 1 - blend a"
proof (cases "a < 1 / 2")
  case True
  have "pow (a * 2) (1 / 2) = sqrt (2 * a)"
    using assms by (simp add: pow_half mult.commute)
  with True show ?thesis
    by (simp add: render_def blend_def Let_def)
next
  case False
  then have "0 \<le> (a - 5 / 10) * 2" by simp
  then have "pow ((a - 5 / 10) * 2) 2 = ((a - 1 / 2) * 2)\<^sup>2"
    by (simp add: pow_two)
  with False show ?thesis
    by (simp add: render_def blend_def Let_def)
qed


lemma isCont_blend: "isCont blend (1 / 2)"
proof -
  have eq: "blend = (\<lambda>a. if a \<le> 1 / 2 then sqrt (2 * a) / 2 else ((a - 1 / 2) * 2)\<^sup>2 / 2 + 1 / 2)"
    by (rule ext) (simp add: blend_def)
  have l: "continuous (at_left (1 / 2)) (\<lambda>a::real. sqrt (2 * a) / 2)"
    by (rule continuous_at_imp_continuous_at_within) (auto intro!: continuous_intros)
  have "isCont (\<lambda>a::real. ((a - 1 / 2) * 2)\<^sup>2 / 2 + 1 / 2) (1 / 2)"
    by (auto intro!: continuous_intros)
  from isContD [OF this]
  have "(\<lambda>a::real. ((a - 1 / 2) * 2)\<^sup>2 / 2 + 1 / 2) \<midarrow>1 / 2\<rightarrow> sqrt (2 * (1 / 2)) / 2"
    by simp
  then have r: "((\<lambda>a::real. ((a - 1 / 2) * 2)\<^sup>2 / 2 + 1 / 2) \<longlongrightarrow> sqrt (2 * (1 / 2)) / 2)
      (at_right (1 / 2))"
    by (simp only: filterlim_at_split)
  show ?thesis
    unfolding eq by (rule isCont_If_ge [OF l r])
qed


lemma isCont_render: "isCont (\<lambda>a. draw_alpha (render \<lparr>displayed_geometry = g, overlay_alpha = a\<rparr>)) (1 / 2)"
proof -
  have "eventually (\<lambda>a::real. a \<in> {0<..}) (nhds (1 / 2))"
    by (rule eventually_nhds_in_open) simp_all
  then have "eventually (\<lambda>a. draw_alpha (render \<lparr>displayed_geometry = g, overlay_alpha = a\<rparr>) =
      1 - blend a) (nhds (1 / 2))"
    by (rule eventually_mono) (simp add: draw_alpha_render)
  moreover have "isCont (\<lambda>a. 1 - blend a) (1 / 2)"
    using isCont_blend by (intro continuous_intros)
  ultimately show ?thesis
    by (simp only: isCont_cong)
qed

text \<open>
  Claim C8. The snapshot is drawn at the displayed geometry with opacity \<open>1 - blend\<close>, where
  for a progress \<open>a\<close> in \<open>[0, 1]\<close> the blend is \<open>sqrt (2a) / 2\<close> below one half and
  \<open>((a - 0.5) * 2)\<^sup>2 / 2 + 0.5\<close> from one half on. Hence the opacity is 1 at progress 0 and 0
  at progress 1, and the curve is continuous at progress one half.
\<close>

theorem crossfade_opacity_curve:
  "(0 \<le> a \<and> a \<le> 1 \<longrightarrow>
      draw_alpha (render \<lparr>displayed_geometry = g, overlay_alpha = a\<rparr>) =
        1 - (if a < 1 / 2 then sqrt (2 * a) / 2 else ((a - 1 / 2) * 2)\<^sup>2 / 2 + 1 / 2) \<and>
      draw_geometry (render \<lparr>displayed_geometry = g, overlay_alpha = a\<rparr>) = g) \<and>
   draw_alpha (render \<lparr>displayed_geometry = g, overlay_alpha = 0\<rparr>) = 1 \<and>
   draw_alpha (render \<lparr>displayed_geometry = g, overlay_alpha = 1\<rparr>) = 0 \<and>
   isCont (\<lambda>a. draw_alpha (render \<lparr>displayed_geometry = g, overlay_alpha = a\<rparr>)) (1 / 2)"
proof -
  have "draw_geometry (render \<lparr>displayed_geometry = g, overlay_alpha = a\<rparr>) = g"
    by (simp add: render_def Let_def)
  moreover have "0 \<le> a \<longrightarrow> draw_alpha (render \<lparr>displayed_geometry = g, overlay_alpha = a\<rparr>) =
        1 - (if a < 1 / 2 then sqrt (2 * a) / 2 else ((a - 1 / 2) * 2)\<^sup>2 / 2 + 1 / 2)"
    using draw_alpha_render [of a g] by (simp only: blend_def) simp
  moreover have "draw_alpha (render \<lparr>displayed_geometry = g, overlay_alpha = 0\<rparr>) = 1"
    using draw_alpha_render [of 0 g] by (simp add: blend_def)
  moreover have "draw_alpha (render \<lparr>displayed_geometry = g, overlay_alpha = 1\<rparr>) = 0"
    using draw_alpha_render [of 1 g] by (simp add: blend_def)
  ultimately show ?thesis
    using isCont_render [of g] by blast
qed

theorem crossfade_opacity_curve_witness:
  "draw_alpha (render \<lparr>displayed_geometry =
        \<lparr>box_x = 0, box_y = 0, box_width = 640, box_height = 480\<rparr>, overlay_alpha = 1 / 8\<rparr>) = 3 / 4 \<and>
   draw_alpha (render \<lparr>displayed_geometry =
        \<lparr>box_x = 0, box_y = 0, box_width = 640, box_height = 480\<rparr>, overlay_alpha = 3 / 4\<rparr>) = 3 / 8"
  using crossfade_opacity_curve
      [of "1 / 8" "\<lparr>box_x = 0, box_y = 0, box_width = 640, box_height = 480\<rparr>"]
    crossfade_opacity_curve
      [of "3 / 4" "\<lparr>box_x = 0, box_y = 0, box_width = 640, box_height = 480\<rparr>"]
    real_sqrt_divide [of 1 4]
  by (simp add: power2_eq_square)

end
